theory Spec2Isabelle
  imports Main "HOL-Library.Sublist" "HOL-Library.Multiset"
begin

section \<open>Python values and the operations the Collector applies to them\<close>

text \<open>
  The Collector (\<^verbatim>\<open>src/lambda.py\<close>) works on parsed JSON: the response of the
  streaming API, the response of the parameter store, and the dictionaries it builds and
  serialises. A Python \<^verbatim>\<open>dict\<close> is an association list in insertion order (its keys
  are distinct in every value Python can build); a Python \<^verbatim>\<open>str\<close> is a \<open>string\<close>,
  one \<open>char\<close> for one code point below 256. JSON numbers are integers here: every
  number the Collector reads (duration, popularity, track count) is one.
\<close>

datatype json =
    JNull
  | JBool bool
  | JInt int
  | JStr string
  | JList "json list"
  | JObj "(string \<times> json) list"

type_synonym py_dict = "(string \<times> json) list"

text \<open>
  The exceptions of the source. \<open>ExternalError\<close> is whatever a client library raises;
  \<open>AnalysisException\<close> is Spark's, for a column a data frame does not have.
\<close>

datatype py_error =
    KeyError string
  | IndexError
  | TypeError
  | AttributeError
  | ValueError string
  | ExternalError string
  | AnalysisException string

text \<open>\<^verbatim>\<open>str(n)\<close> for a natural number, and \<^verbatim>\<open>s.zfill(n)\<close>.\<close>

definition digit_char :: "nat \<Rightarrow> char" where
  "digit_char d = char_of (48 + d)"

fun decimal :: "nat \<Rightarrow> string" where
  "decimal n = (if n < 10 then [digit_char n] else decimal (n div 10) @ [digit_char (n mod 10)])"

declare decimal.simps [simp del]

definition zfill :: "nat \<Rightarrow> string \<Rightarrow> string" where
  "zfill n s = replicate (n - length s) (CHR ''0'') @ s"

text \<open>\<^verbatim>\<open>sep.join(parts)\<close>.\<close>

fun join :: "string \<Rightarrow> string list \<Rightarrow> string" where
  "join sep [] = []"
| "join sep [p] = p"
| "join sep (p # q # ps) = p @ sep @ join sep (q # ps)"

text \<open>\<^verbatim>\<open>s.split(sep)\<close> for a one-character separator: never the empty list.\<close>

fun str_split :: "char \<Rightarrow> string \<Rightarrow> string list" where
  "str_split sep [] = [[]]"
| "str_split sep (c # cs) =
     (if c = sep then [] # str_split sep cs
      else (case str_split sep cs of
              [] \<Rightarrow> [[c]]
            | p # ps \<Rightarrow> (c # p) # ps))"

text \<open>
  Subscription \<^verbatim>\<open>x[k]\<close>, \<^verbatim>\<open>x[i]\<close> and \<^verbatim>\<open>x[a:b]\<close> (non-negative literals), with the
  error Python raises: a missing key is a \<^verbatim>\<open>KeyError\<close>, an index out of range an
  \<^verbatim>\<open>IndexError\<close>, a subscript of the wrong kind or a value that is not subscriptable
  a \<^verbatim>\<open>TypeError\<close>. A slice never fails on a string or a list. (A slice of a \<^verbatim>\<open>dict\<close>
  is a \<^verbatim>\<open>TypeError\<close> up to Python 3.11 and a \<^verbatim>\<open>KeyError\<close> from 3.12: an exception
  either way.)
\<close>

datatype subscript = Key string | Index nat | Slice nat nat

fun getitem :: "json \<Rightarrow> subscript \<Rightarrow> py_error + json" where
  "getitem (JObj kvs) (Key k) =
     (case map_of kvs k of None \<Rightarrow> Inl (KeyError k) | Some v \<Rightarrow> Inr v)"
| "getitem (JObj kvs) (Index i) = Inl (KeyError (decimal i))"
| "getitem (JObj kvs) (Slice a b) = Inl TypeError"
| "getitem (JList xs) (Key k) = Inl TypeError"
| "getitem (JList xs) (Index i) = (if i < length xs then Inr (xs ! i) else Inl IndexError)"
| "getitem (JList xs) (Slice a b) = Inr (JList (take (b - a) (drop a xs)))"
| "getitem (JStr s) (Key k) = Inl TypeError"
| "getitem (JStr s) (Index i) = (if i < length s then Inr (JStr [s ! i]) else Inl IndexError)"
| "getitem (JStr s) (Slice a b) = Inr (JStr (take (b - a) (drop a s)))"
| "getitem JNull sub = Inl TypeError"
| "getitem (JBool b) sub = Inl TypeError"
| "getitem (JInt n) sub = Inl TypeError"

text \<open>A chain of subscriptions \<^verbatim>\<open>x[s1][s2]...\<close>, left to right, stopping at the first error.\<close>

fun getpath :: "json \<Rightarrow> subscript list \<Rightarrow> py_error + json" where
  "getpath x [] = Inr x"
| "getpath x (s # ss) = (case getitem x s of Inl e \<Rightarrow> Inl e | Inr y \<Rightarrow> getpath y ss)"

text \<open>\<^verbatim>\<open>d.get(k, default)\<close>: only a \<^verbatim>\<open>dict\<close> has the method.\<close>

fun dict_get :: "json \<Rightarrow> string \<Rightarrow> json \<Rightarrow> py_error + json" where
  "dict_get (JObj kvs) k dflt = Inr (case map_of kvs k of None \<Rightarrow> dflt | Some v \<Rightarrow> v)"
| "dict_get x k dflt = Inl AttributeError"

text \<open>Truth value of an object (\<^verbatim>\<open>if x:\<close>, \<^verbatim>\<open>not x\<close>).\<close>

fun truthy :: "json \<Rightarrow> bool" where
  "truthy JNull = False"
| "truthy (JBool b) = b"
| "truthy (JInt n) = (n \<noteq> 0)"
| "truthy (JStr s) = (s \<noteq> [])"
| "truthy (JList xs) = (xs \<noteq> [])"
| "truthy (JObj kvs) = (kvs \<noteq> [])"

text \<open>
  What \<^verbatim>\<open>for item in x\<close> iterates over: the elements of a list, the characters of a
  string, the keys of a dictionary; anything else is not iterable.
\<close>

fun iterate :: "json \<Rightarrow> py_error + json list" where
  "iterate (JList xs) = Inr xs"
| "iterate (JStr s) = Inr (map (\<lambda>c. JStr [c]) s)"
| "iterate (JObj kvs) = Inr (map (\<lambda>kv. JStr (fst kv)) kvs)"
| "iterate x = Inl TypeError"


section \<open>\<^verbatim>\<open>json.dumps\<close>\<close>

text \<open>
  The encoder of Python's \<^verbatim>\<open>json\<close> module, as the Collector calls it: with
  \<^verbatim>\<open>ensure_ascii=False\<close> a string is written between double quotes with only the
  double quote, the backslash and the control characters below 0x20 escaped. Without
  \<^verbatim>\<open>indent\<close> the separators are \<^verbatim>\<open>", "\<close> and \<^verbatim>\<open>": "\<close>; with \<^verbatim>\<open>indent=n\<close> every
  element starts a new line, indented by \<open>n\<close> spaces for each level of nesting, and
  the item separator is \<^verbatim>\<open>","\<close>. Empty containers are \<^verbatim>\<open>[]\<close> and \<^verbatim>\<open>{}\<close>.
\<close>

definition hex_char :: "nat \<Rightarrow> char" where
  "hex_char d = (if d < 10 then char_of (48 + d) else char_of (87 + d))"

definition escape_char :: "char \<Rightarrow> string" where
  "escape_char c =
     (let n = (of_char c :: nat) in
      if n = 0x22 then [CHR 0x5C, CHR 0x22]
      else if n = 0x5C then [CHR 0x5C, CHR 0x5C]
      else if n = 0x0A then [CHR 0x5C, CHR ''n'']
      else if n = 0x0D then [CHR 0x5C, CHR ''r'']
      else if n = 0x09 then [CHR 0x5C, CHR ''t'']
      else if n = 0x08 then [CHR 0x5C, CHR ''b'']
      else if n = 0x0C then [CHR 0x5C, CHR ''f'']
      else if n < 0x20 then [CHR 0x5C, CHR ''u'', CHR ''0'', CHR ''0'', hex_char (n div 16), hex_char (n mod 16)]
      else [c])"

definition encode_basestring :: "string \<Rightarrow> string" where
  "encode_basestring s = [CHR 0x22] @ concat (map escape_char s) @ [CHR 0x22]"

definition encode_int :: "int \<Rightarrow> string" where
  "encode_int i = (if i < 0 then CHR ''-'' # decimal (nat (- i)) else decimal (nat i))"

definition newline_indent :: "nat option \<Rightarrow> nat \<Rightarrow> string" where
  "newline_indent indent level =
     (case indent of None \<Rightarrow> [] | Some n \<Rightarrow> CHR 0x0A # replicate (n * level) (CHR '' ''))"

definition item_separator :: "nat option \<Rightarrow> string" where
  "item_separator indent = (case indent of None \<Rightarrow> '', '' | Some n \<Rightarrow> '','')"

fun encode :: "nat option \<Rightarrow> nat \<Rightarrow> json \<Rightarrow> string"
  and encode_items :: "nat option \<Rightarrow> nat \<Rightarrow> json list \<Rightarrow> string list"
  and encode_members :: "nat option \<Rightarrow> nat \<Rightarrow> (string \<times> json) list \<Rightarrow> string list"
where
  "encode indent level JNull = ''null''"
| "encode indent level (JBool b) = (if b then ''true'' else ''false'')"
| "encode indent level (JInt i) = encode_int i"
| "encode indent level (JStr s) = encode_basestring s"
| "encode indent level (JList []) = ''[]''"
| "encode indent level (JList (v # vs)) =
     ''['' @ newline_indent indent (Suc level)
       @ join (item_separator indent @ newline_indent indent (Suc level))
              (encode_items indent (Suc level) (v # vs))
       @ newline_indent indent level @ '']''"
| "encode indent level (JObj []) = ''{}''"
| "encode indent level (JObj (kv # kvs)) =
     ''{'' @ newline_indent indent (Suc level)
       @ join (item_separator indent @ newline_indent indent (Suc level))
              (encode_members indent (Suc level) (kv # kvs))
       @ newline_indent indent level @ ''}''"
| "encode_items indent level [] = []"
| "encode_items indent level (v # vs) = encode indent level v # encode_items indent level vs"
| "encode_members indent level [] = []"
| "encode_members indent level (kv # kvs) =
     (encode_basestring (fst kv) @ '': '' @ encode indent level (snd kv))
       # encode_members indent level kvs"

text \<open>\<^verbatim>\<open>json.dumps(x, ensure_ascii=False)\<close> and \<^verbatim>\<open>json.dumps(x, ensure_ascii=False, indent=2)\<close>.\<close>

definition json_dumps :: "json \<Rightarrow> string" where
  "json_dumps x = encode None 0 x"

definition json_dumps_indent2 :: "json \<Rightarrow> string" where
  "json_dumps_indent2 x = encode (Some 2) 0 x"


section \<open>The world of the Collector\<close>

text \<open>
  \<^verbatim>\<open>datetime.now()\<close> and the three ways the Collector formats it. The year is printed on
  four digits, as it is for every year from 1000 to 9999.
\<close>

record datetime =
  year :: nat
  month :: nat
  day :: nat
  hour :: nat
  minute :: nat
  second :: nat
  microsecond :: nat

definition zpad :: "nat \<Rightarrow> nat \<Rightarrow> string" where
  "zpad w n = zfill w (decimal n)"

text \<open>\<^verbatim>\<open>d.isoformat()\<close>: the fraction is left out when the microseconds are zero.\<close>

definition isoformat :: "datetime \<Rightarrow> string" where
  "isoformat d =
     zpad 4 (year d) @ ''-'' @ zpad 2 (month d) @ ''-'' @ zpad 2 (day d) @ ''T''
       @ zpad 2 (hour d) @ '':'' @ zpad 2 (minute d) @ '':'' @ zpad 2 (second d)
       @ (if microsecond d = 0 then [] else ''.'' @ zpad 6 (microsecond d))"

text \<open>\<^verbatim>\<open>d.strftime("%Y%m%d_%H%M%S")\<close>.\<close>

definition strftime_timestamp :: "datetime \<Rightarrow> string" where
  "strftime_timestamp d =
     zpad 4 (year d) @ zpad 2 (month d) @ zpad 2 (day d) @ ''_''
       @ zpad 2 (hour d) @ zpad 2 (minute d) @ zpad 2 (second d)"

text \<open>\<^verbatim>\<open>d.strftime("year=%Y/month=%m/day=%d")\<close>.\<close>

definition strftime_date_partition :: "datetime \<Rightarrow> string" where
  "strftime_date_partition d =
     ''year='' @ zpad 4 (year d) @ ''/month='' @ zpad 2 (month d) @ ''/day='' @ zpad 2 (day d)"

text \<open>
  The calls that leave the process, in the order they are made: the copy of the cache
  file, the request to the parameter store, the request to the streaming API (with its
  \<^verbatim>\<open>limit\<close>) and \<^verbatim>\<open>put_object\<close> (bucket, key), attempted whether or not it succeeds.
\<close>

datatype event =
    FileCopy string string
  | SsmGetParametersByPath string
  | SpotifyRecentlyPlayed nat
  | S3PutObject string string

text \<open>
  The state the handler reads and changes, and the answers of its collaborators:
  \<^item> \<open>fs\<close>: the files, path to content (\<^verbatim>\<open>os.path.exists\<close>, \<^verbatim>\<open>shutil.copy\<close>);
  \<^item> \<open>environ\<close>: \<^verbatim>\<open>os.environ\<close>;
  \<^item> \<open>ssm_get_parameters_by_path\<close>: what the parameter store answers for a path, or the
    exception the client raises;
  \<^item> \<open>current_user_recently_played\<close>: what the streaming API answers for a limit, or the
    exception the client raises (authentication included);
  \<^item> \<open>auth_cache_write\<close>: what the authentication library writes to its cache file during
    the API call, if it refreshes the token;
  \<^item> \<open>s3_put_error\<close>: the exception \<^verbatim>\<open>put_object\<close> raises for a bucket and key, if any;
  \<^item> \<open>s3_objects\<close>: the objects in storage, (bucket, key) to body;
  \<^item> \<open>clock\<close>, \<open>ticks\<close>: the \<open>n\<close>-th call of \<^verbatim>\<open>datetime.now()\<close> returns \<open>clock n\<close>;
  \<^item> \<open>calls\<close>: the calls made so far.
  Console output is not part of the state.
\<close>

record world =
  fs :: "string \<rightharpoonup> string"
  environ :: "string \<rightharpoonup> string"
  ssm_get_parameters_by_path :: "string \<Rightarrow> py_error + json"
  current_user_recently_played :: "nat \<Rightarrow> py_error + json"
  auth_cache_write :: "string option"
  s3_put_error :: "string \<Rightarrow> string \<Rightarrow> py_error option"
  s3_objects :: "string \<times> string \<rightharpoonup> string"
  clock :: "nat \<Rightarrow> datetime"
  ticks :: nat
  calls :: "event list"

definition datetime_now :: "world \<Rightarrow> datetime \<times> world" where
  "datetime_now w = (clock w (ticks w), w\<lparr>ticks := Suc (ticks w)\<rparr>)"

definition packaged_cache_path :: string where
  "packaged_cache_path = ''./.cache''"

definition tmp_cache_path :: string where
  "tmp_cache_path = ''/tmp/.cache''"

definition path_exists :: "world \<Rightarrow> string \<Rightarrow> bool" where
  "path_exists w p = (fs w p \<noteq> None)"

text \<open>\<^verbatim>\<open>shutil.copy(src, dst)\<close> of an existing file to a file path.\<close>

definition shutil_copy :: "string \<Rightarrow> string \<Rightarrow> world \<Rightarrow> world" where
  "shutil_copy src dst w =
     w\<lparr>fs := (fs w)(dst := fs w src), calls := calls w @ [FileCopy src dst]\<rparr>"

section \<open>The Collector: \<^verbatim>\<open>src/lambda.py\<close>\<close>

subsection \<open>\<^verbatim>\<open>get_recent_tracks\<close>\<close>

text \<open>
  The dictionary display of lines 106 to 122, entry by entry: the key and the chain of
  subscriptions of \<^verbatim>\<open>item\<close> that gives its value. Python evaluates the entries in this
  order; \<^verbatim>\<open>collection_timestamp\<close>, the last entry, reads the clock.
\<close>

definition track_data_entries :: "(string \<times> subscript list) list" where
  "track_data_entries =
    [(''track_id'', [Key ''track'', Key ''id'']),
     (''name'', [Key ''track'', Key ''name'']),
     (''artist'', [Key ''track'', Key ''artists'', Index 0, Key ''name'']),
     (''played_at'', [Key ''played_at'']),
     (''album'', [Key ''track'', Key ''album'', Key ''name'']),
     (''duration_ms'', [Key ''track'', Key ''duration_ms'']),
     (''popularity'', [Key ''track'', Key ''popularity'']),
     (''explicit'', [Key ''track'', Key ''explicit'']),
     (''artist_id'', [Key ''track'', Key ''artists'', Index 0, Key ''id'']),
     (''album_id'', [Key ''track'', Key ''album'', Key ''id'']),
     (''release_date'', [Key ''track'', Key ''album'', Key ''release_date'']),
     (''total_tracks'', [Key ''track'', Key ''album'', Key ''total_tracks'']),
     (''played_date'', [Key ''played_at'', Slice 0 10]),
     (''played_hour'', [Key ''played_at'', Slice 11 13])]"

fun eval_entries :: "json \<Rightarrow> (string \<times> subscript list) list \<Rightarrow> py_error + py_dict" where
  "eval_entries item [] = Inr []"
| "eval_entries item (kp # kps) =
     (case getpath item (snd kp) of
        Inl e \<Rightarrow> Inl e
      | Inr v \<Rightarrow>
          (case eval_entries item kps of
             Inl e \<Rightarrow> Inl e
           | Inr d \<Rightarrow> Inr ((fst kp, v) # d)))"

definition track_data :: "world \<Rightarrow> json \<Rightarrow> (py_error + py_dict) \<times> world" where
  "track_data w item =
     (case eval_entries item track_data_entries of
        Inl e \<Rightarrow> (Inl e, w)
      | Inr d \<Rightarrow>
          (case datetime_now w of
             (now, w') \<Rightarrow> (Inr (d @ [(''collection_timestamp'', JStr (isoformat now))]), w')))"

text \<open>The loop of lines 105 to 123: an exception leaves the loop with what it raised.\<close>

fun for_item_in :: "world \<Rightarrow> json list \<Rightarrow> py_dict list \<Rightarrow> (py_error + py_dict list) \<times> world" where
  "for_item_in w [] all_tracks = (Inr all_tracks, w)"
| "for_item_in w (item # items) all_tracks =
     (case track_data w item of
        (Inl e, w') \<Rightarrow> (Inl e, w')
      | (Inr d, w') \<Rightarrow> for_item_in w' items (all_tracks @ [d]))"

text \<open>
  The request itself: it is recorded, and the authentication library may rewrite its
  cache file, whatever the request then answers.
\<close>

definition api_request :: "nat \<Rightarrow> world \<Rightarrow> (py_error + json) \<times> world" where
  "api_request limit w =
     (current_user_recently_played w limit,
      w\<lparr>fs := (case auth_cache_write w of
                 None \<Rightarrow> fs w
               | Some c \<Rightarrow> (fs w)(tmp_cache_path \<mapsto> c)),
        calls := calls w @ [SpotifyRecentlyPlayed limit]\<rparr>)"

text \<open>
  \<^verbatim>\<open>get_recent_tracks\<close>: every exception raised between \<^verbatim>\<open>try\<close> and \<^verbatim>\<open>except Exception\<close>
  (by the request, by \<^verbatim>\<open>results.get\<close>, by the iteration, by an entry of the
  dictionary) ends in \<^verbatim>\<open>return []\<close>.
\<close>

definition get_recent_tracks :: "world \<Rightarrow> py_dict list \<times> world" where
  "get_recent_tracks w =
     (let target_count = 50 in
      case api_request target_count w of
        (Inl e, w1) \<Rightarrow> ([], w1)
      | (Inr results, w1) \<Rightarrow>
          (case dict_get results ''items'' (JList []) of
             Inl e \<Rightarrow> ([], w1)
           | Inr items \<Rightarrow>
               if \<not> truthy items then ([], w1)
               else
                 (case iterate items of
                    Inl e \<Rightarrow> ([], w1)
                  | Inr its \<Rightarrow>
                      (case for_item_in w1 its [] of
                         (Inl e, w2) \<Rightarrow> ([], w2)
                       | (Inr all_tracks, w2) \<Rightarrow> (all_tracks, w2)))))"


subsection \<open>The two writes\<close>

text \<open>
  \<^verbatim>\<open>_upload_string_to_s3\<close>: \<^verbatim>\<open>put_object\<close> is attempted; an exception is caught and gives
  \<^verbatim>\<open>False\<close>, and the object is stored only when there is none. The body is the string
  (its UTF-8 encoding determines it).
\<close>

definition upload_string_to_s3 :: "string \<Rightarrow> string \<Rightarrow> string \<Rightarrow> world \<Rightarrow> bool \<times> world" where
  "upload_string_to_s3 content_string bucket_name key w =
     (let w1 = w\<lparr>calls := calls w @ [S3PutObject bucket_name key]\<rparr> in
      case s3_put_error w bucket_name key of
        None \<Rightarrow> (True, w1\<lparr>s3_objects := (s3_objects w)((bucket_name, key) \<mapsto> content_string)\<rparr>)
      | Some e \<Rightarrow> (False, w1))"

definition jsonl_content :: "py_dict list \<Rightarrow> string" where
  "jsonl_content tracks = join [CHR 0x0A] (map (\<lambda>track. json_dumps (JObj track)) tracks)"

definition json_content :: "py_dict list \<Rightarrow> string" where
  "json_content tracks = json_dumps_indent2 (JList (map JObj tracks))"

text \<open>The object keys of lines 149 and 164.\<close>

definition jsonl_file_name :: "string \<Rightarrow> string \<Rightarrow> string \<Rightarrow> string" where
  "jsonl_file_name file_prefix date_partition timestamp =
     file_prefix @ ''/'' @ date_partition @ ''/historial_'' @ timestamp @ ''.jsonl''"

definition json_file_name :: "string \<Rightarrow> string \<Rightarrow> string" where
  "json_file_name file_prefix timestamp = file_prefix @ ''/historial_'' @ timestamp @ ''.json''"

text \<open>\<^verbatim>\<open>save_json_for_glue\<close> reads the clock twice, for the file name and for the partition.\<close>

definition save_json_for_glue :: "py_dict list \<Rightarrow> string \<Rightarrow> string \<Rightarrow> world \<Rightarrow> string option \<times> world" where
  "save_json_for_glue tracks bucket_name file_prefix w =
     (case datetime_now w of (now1, w1) \<Rightarrow>
      case datetime_now w1 of (now2, w2) \<Rightarrow>
        (let timestamp = strftime_timestamp now1;
             date_partition = strftime_date_partition now2;
             file_name = jsonl_file_name file_prefix date_partition timestamp;
             s3_url = ''s3://'' @ bucket_name @ ''/'' @ file_name
         in case upload_string_to_s3 (jsonl_content tracks) bucket_name file_name w2 of
              (True, w3) \<Rightarrow> (Some s3_url, w3)
            | (False, w3) \<Rightarrow> (None, w3)))"

definition save_regular_json :: "py_dict list \<Rightarrow> string \<Rightarrow> string \<Rightarrow> world \<Rightarrow> string option \<times> world" where
  "save_regular_json tracks bucket_name file_prefix w =
     (case datetime_now w of (now1, w1) \<Rightarrow>
        (let timestamp = strftime_timestamp now1;
             file_name = json_file_name file_prefix timestamp;
             s3_url = ''s3://'' @ bucket_name @ ''/'' @ file_name
         in case upload_string_to_s3 (json_content tracks) bucket_name file_name w1 of
              (True, w2) \<Rightarrow> (Some s3_url, w2)
            | (False, w2) \<Rightarrow> (None, w2)))"

subsection \<open>\<^verbatim>\<open>lambda_handler\<close>\<close>

text \<open>Lines 28 to 36: the packaged cache is copied when \<^verbatim>\<open>/tmp\<close> has none.\<close>

definition cache_handoff :: "world \<Rightarrow> world" where
  "cache_handoff w =
     (if \<not> path_exists w tmp_cache_path \<and> path_exists w packaged_cache_path
      then shutil_copy packaged_cache_path tmp_cache_path w
      else w)"

text \<open>Lines 39 to 46: a missing variable is a \<^verbatim>\<open>KeyError\<close>, raised again after the message.\<close>

definition get_config :: "world \<Rightarrow> py_error + string \<times> string" where
  "get_config w =
     (case environ w ''PARAMETER_PATH'' of
        None \<Rightarrow> Inl (KeyError ''PARAMETER_PATH'')
      | Some parameter_path \<Rightarrow>
          (case environ w ''S3_BUCKET'' of
             None \<Rightarrow> Inl (KeyError ''S3_BUCKET'')
           | Some s3_bucket \<Rightarrow> Inr (parameter_path, s3_bucket)))"

text \<open>
  The comprehension of line 53: \<^verbatim>\<open>param['Name'].split('/')[-1]\<close> is the key (only a
  string has \<^verbatim>\<open>split\<close>), \<^verbatim>\<open>param['Value']\<close> the value; a later parameter replaces an
  earlier one of the same name.
\<close>

fun secrets_comprehension :: "json list \<Rightarrow> (string \<rightharpoonup> json) \<Rightarrow> py_error + (string \<rightharpoonup> json)" where
  "secrets_comprehension [] secrets = Inr secrets"
| "secrets_comprehension (param # params) secrets =
     (case getitem param (Key ''Name'') of
        Inl e \<Rightarrow> Inl e
      | Inr (JStr name) \<Rightarrow>
          (case getitem param (Key ''Value'') of
             Inl e \<Rightarrow> Inl e
           | Inr v \<Rightarrow> secrets_comprehension params (secrets(last (str_split (CHR ''/'') name) \<mapsto> v)))
      | Inr other \<Rightarrow> Inl AttributeError)"

definition required_secrets :: "string list" where
  "required_secrets = [''client-id'', ''client-secret'', ''redirect-uri'']"

text \<open>Lines 49 to 59: every exception of the block is raised again after the message.\<close>

definition get_secrets :: "string \<Rightarrow> world \<Rightarrow> (py_error + (string \<rightharpoonup> json)) \<times> world" where
  "get_secrets parameter_path w =
     (let w1 = w\<lparr>calls := calls w @ [SsmGetParametersByPath parameter_path]\<rparr> in
      case ssm_get_parameters_by_path w parameter_path of
        Inl e \<Rightarrow> (Inl e, w1)
      | Inr response \<Rightarrow>
          (case getitem response (Key ''Parameters'') of
             Inl e \<Rightarrow> (Inl e, w1)
           | Inr parameters \<Rightarrow>
               (case iterate parameters of
                  Inl e \<Rightarrow> (Inl e, w1)
                | Inr params \<Rightarrow>
                    (case secrets_comprehension params Map.empty of
                       Inl e \<Rightarrow> (Inl e, w1)
                     | Inr secrets \<Rightarrow>
                         if \<not> list_all (\<lambda>k. secrets k \<noteq> None) required_secrets
                         then (Inl (ValueError ''Faltan secretos (client-id, client-secret, o redirect-uri) en Parameter Store.''), w1)
                         else (Inr secrets, w1)))))"

record response =
  statusCode :: int
  body :: string

text \<open>
  The two bodies are \<^verbatim>\<open>json.dumps\<close> of a string of printable ASCII characters, which
  is written the same with and without \<^verbatim>\<open>ensure_ascii\<close>.
\<close>

definition saved_response :: response where
  "saved_response =
     \<lparr>statusCode = 200, body = json_dumps (JStr ''Datos guardados correctamente en S3.'')\<rparr>"

definition no_new_tracks_response :: response where
  "no_new_tracks_response =
     \<lparr>statusCode = 200, body = json_dumps (JStr ''No se procesaron nuevas canciones.'')\<rparr>"

text \<open>Truth value of what a save function returns: \<^verbatim>\<open>None\<close> or the URL.\<close>

fun url_truthy :: "string option \<Rightarrow> bool" where
  "url_truthy None = False"
| "url_truthy (Some url) = (url \<noteq> [])"

text \<open>
  Lines 73 to 87. The client of line 63 is built from the three secrets, which are
  present; building it calls nothing.
\<close>

definition process_tracks :: "string \<Rightarrow> world \<Rightarrow> response \<times> world" where
  "process_tracks s3_bucket w =
     (case get_recent_tracks w of (tracks, w1) \<Rightarrow>
        if tracks \<noteq> [] then
          (case save_json_for_glue tracks s3_bucket ''raw/historial'' w1 of (glue_url, w2) \<Rightarrow>
           case save_regular_json tracks s3_bucket ''processed/historial'' w2 of (regular_url, w3) \<Rightarrow>
             if url_truthy glue_url \<and> url_truthy regular_url
             then (saved_response, w3)
             else (no_new_tracks_response, w3))
        else (no_new_tracks_response, w1))"

text \<open>
  The handler: \<open>Inl\<close> is the exception it raises, \<open>Inr\<close> the response it returns.
  It reads neither of its arguments \<^verbatim>\<open>event\<close> and \<^verbatim>\<open>context\<close>.
\<close>

definition lambda_handler :: "world \<Rightarrow> (py_error + response) \<times> world" where
  "lambda_handler w0 =
     (let w = cache_handoff w0 in
      case get_config w of
        Inl e \<Rightarrow> (Inl e, w)
      | Inr (parameter_path, s3_bucket) \<Rightarrow>
          (case get_secrets parameter_path w of
             (Inl e, w1) \<Rightarrow> (Inl e, w1)
           | (Inr secrets, w1) \<Rightarrow>
               (case process_tracks s3_bucket w1 of (resp, w2) \<Rightarrow> (Inr resp, w2))))"


section \<open>The Deduplicator: \<^verbatim>\<open>src/glue-job.py\<close>\<close>

text \<open>
  A Spark data frame is its column names and its rows, each row the cells in the order
  of the columns; a cell is a value as above, \<open>JNull\<close> for SQL's null.
  \<^verbatim>\<open>dropDuplicates(names)\<close> is Spark's: it refuses a column the frame does not have,
  and keeps one row for each distinct combination of values in the columns of
  \<open>names\<close> (null equal to null). Spark fixes neither the row that survives nor the
  order of the result; here the first row met survives, in the order of the input.
\<close>

record dataframe =
  columns :: "string list"
  rows :: "json list list"

definition key_of :: "string list \<Rightarrow> string list \<Rightarrow> json list \<Rightarrow> json option list" where
  "key_of cols names row = map (map_of (zip cols row)) names"

fun drop_seen :: "('r \<Rightarrow> 'k) \<Rightarrow> 'k list \<Rightarrow> 'r list \<Rightarrow> 'r list" where
  "drop_seen key seen [] = []"
| "drop_seen key seen (r # rs) =
     (if key r \<in> set seen then drop_seen key seen rs
      else r # drop_seen key (key r # seen) rs)"

definition dropDuplicates :: "string list \<Rightarrow> dataframe \<Rightarrow> py_error + dataframe" where
  "dropDuplicates names df =
     (case filter (\<lambda>c. c \<notin> set (columns df)) names of
        c # cs \<Rightarrow> Inl (AnalysisException c)
      | [] \<Rightarrow> Inr (df\<lparr>rows := drop_seen (key_of (columns df) names) [] (rows df)\<rparr>))"

definition DEDUP_COLUMN :: string where
  "DEDUP_COLUMN = ''played_at''"

text \<open>Line 71.\<close>

definition deduplicated_df :: "dataframe \<Rightarrow> py_error + dataframe" where
  "deduplicated_df df = dropDuplicates [DEDUP_COLUMN] df"

text \<open>The value of the \<^verbatim>\<open>played_at\<close> column in a row of a frame.\<close>

definition played_at_of :: "dataframe \<Rightarrow> json list \<Rightarrow> json option" where
  "played_at_of df row = map_of (zip (columns df) row) DEDUP_COLUMN"


section \<open>Vocabulary of the properties\<close>

text \<open>
  The shape of an item that \<^verbatim>\<open>get_recent_tracks\<close> can read: a dictionary with
  \<^verbatim>\<open>played_at\<close> (a string or a list, the two kinds a slice accepts) and \<^verbatim>\<open>track\<close>, a
  dictionary with the five scalar keys, with \<^verbatim>\<open>artists\<close>, a list whose first element is
  a dictionary with \<^verbatim>\<open>name\<close> and \<^verbatim>\<open>id\<close>, and with \<^verbatim>\<open>album\<close>, a dictionary with its four
  keys. The values under the keys are not constrained.
\<close>

definition has_keys :: "py_dict \<Rightarrow> string list \<Rightarrow> bool" where
  "has_keys d ks = list_all (\<lambda>k. map_of d k \<noteq> None) ks"

fun sliceable :: "json option \<Rightarrow> bool" where
  "sliceable (Some (JStr s)) = True"
| "sliceable (Some (JList xs)) = True"
| "sliceable x = False"

fun artists_shape :: "json option \<Rightarrow> bool" where
  "artists_shape (Some (JList (JObj a # rest))) = has_keys a [''name'', ''id'']"
| "artists_shape x = False"

fun album_shape :: "json option \<Rightarrow> bool" where
  "album_shape (Some (JObj al)) = has_keys al [''name'', ''id'', ''release_date'', ''total_tracks'']"
| "album_shape x = False"

fun track_shape :: "json option \<Rightarrow> bool" where
  "track_shape (Some (JObj t)) =
     (has_keys t [''id'', ''name'', ''duration_ms'', ''popularity'', ''explicit'']
      \<and> artists_shape (map_of t ''artists'') \<and> album_shape (map_of t ''album''))"
| "track_shape x = False"

fun well_shaped_item :: "json \<Rightarrow> bool" where
  "well_shaped_item (JObj kvs) =
     (sliceable (map_of kvs ''played_at'') \<and> track_shape (map_of kvs ''track''))"
| "well_shaped_item x = False"

text \<open>A valid item is well shaped and its \<^verbatim>\<open>played_at\<close> is a string.\<close>

fun played_at_string :: "json \<Rightarrow> string option" where
  "played_at_string (JObj kvs) =
     (case map_of kvs ''played_at'' of Some (JStr s) \<Rightarrow> Some s | _ \<Rightarrow> None)"
| "played_at_string x = None"

definition valid_item :: "json \<Rightarrow> bool" where
  "valid_item item = (well_shaped_item item \<and> played_at_string item \<noteq> None)"

text \<open>A valid response: a dictionary whose \<^verbatim>\<open>items\<close> is a list of at most 50 valid items.\<close>

fun response_items :: "json \<Rightarrow> json list option" where
  "response_items (JObj kvs) =
     (case map_of kvs ''items'' of Some (JList items) \<Rightarrow> Some items | _ \<Rightarrow> None)"
| "response_items x = None"

definition valid_response :: "json \<Rightarrow> bool" where
  "valid_response results =
     (case response_items results of
        None \<Rightarrow> False
      | Some items \<Rightarrow> length items \<le> 50 \<and> list_all valid_item items)"

text \<open>The keys of a normalized record, in the order of the dictionary display.\<close>

definition track_data_keys :: "string list" where
  "track_data_keys =
    [''track_id'', ''name'', ''artist'', ''played_at'', ''album'', ''duration_ms'',
     ''popularity'', ''explicit'', ''artist_id'', ''album_id'', ''release_date'',
     ''total_tracks'', ''played_date'', ''played_hour'', ''collection_timestamp'']"

text \<open>
  The keys the two writes use when \<^verbatim>\<open>save_json_for_glue\<close> starts in the world \<open>w\<close>: it
  reads the clock twice, \<^verbatim>\<open>save_regular_json\<close> then reads it once.
\<close>

definition jsonl_key :: "world \<Rightarrow> string" where
  "jsonl_key w =
     jsonl_file_name ''raw/historial'' (strftime_date_partition (clock w (Suc (ticks w))))
       (strftime_timestamp (clock w (ticks w)))"

definition json_key :: "world \<Rightarrow> string" where
  "json_key w = json_file_name ''processed/historial'' (strftime_timestamp (clock w (ticks w + 2)))"

text \<open>
  A run reaches the fetch of line 73 when both variables are set and the secrets are
  read without an exception; \<open>before_fetch\<close> is the world at that point.
\<close>

definition reaches_fetch :: "world \<Rightarrow> string \<Rightarrow> string \<Rightarrow> bool" where
  "reaches_fetch w parameter_path s3_bucket =
     (get_config (cache_handoff w) = Inr (parameter_path, s3_bucket)
      \<and> \<not> isl (fst (get_secrets parameter_path (cache_handoff w))))"

definition before_fetch :: "world \<Rightarrow> string \<Rightarrow> world" where
  "before_fetch w parameter_path = snd (get_secrets parameter_path (cache_handoff w))"

text \<open>Kinds of calls, and the calls of a kind among those made.\<close>

fun is_file_copy :: "event \<Rightarrow> bool" where
  "is_file_copy (FileCopy src dst) = True"
| "is_file_copy ev = False"

fun is_network_call :: "event \<Rightarrow> bool" where
  "is_network_call (FileCopy src dst) = False"
| "is_network_call ev = True"

fun is_s3_put :: "event \<Rightarrow> bool" where
  "is_s3_put (S3PutObject bucket key) = True"
| "is_s3_put ev = False"

text \<open>
  A run reports a failure to its caller when the handler raises, or returns a response
  whose status is not 200.
\<close>

fun reports_failure :: "py_error + response \<Rightarrow> bool" where
  "reports_failure (Inl e) = True"
| "reports_failure (Inr r) = (statusCode r \<noteq> 200)"

section \<open>Concrete inputs\<close>

definition example_item :: "string \<Rightarrow> string \<Rightarrow> json" where
  "example_item track_id played_at =
     JObj [(''track'',
            JObj [(''id'', JStr track_id),
                  (''name'', JStr ''Song''),
                  (''artists'', JList [JObj [(''id'', JStr ''ar1''), (''name'', JStr ''Artist'')]]),
                  (''album'',
                   JObj [(''id'', JStr ''al1''), (''name'', JStr ''Album''),
                         (''release_date'', JStr ''2020-05-01''), (''total_tracks'', JInt 12)]),
                  (''duration_ms'', JInt 215000),
                  (''popularity'', JInt 64),
                  (''explicit'', JBool False)]),
           (''played_at'', JStr played_at)]"

definition example_results :: json where
  "example_results =
     JObj [(''items'',
            JList [example_item ''t1'' ''2024-01-15T14:30:00.000Z'',
                   example_item ''t2'' ''2024-01-15T14:26:10.000Z''])]"

text \<open>An item without \<^verbatim>\<open>track\<close>, after a valid one.\<close>

definition broken_results :: json where
  "broken_results =
     JObj [(''items'',
            JList [example_item ''t1'' ''2024-01-15T14:30:00.000Z'',
                   JObj [(''played_at'', JStr ''2024-01-15T14:26:10.000Z'')]])]"

definition empty_results :: json where
  "empty_results = JObj [(''items'', JList [])]"

definition example_parameters :: json where
  "example_parameters =
     JObj [(''Parameters'',
            JList [JObj [(''Name'', JStr ''/spotify/client-id''), (''Value'', JStr ''abc'')],
                   JObj [(''Name'', JStr ''/spotify/client-secret''), (''Value'', JStr ''xyz'')],
                   JObj [(''Name'', JStr ''/spotify/redirect-uri''), (''Value'', JStr ''http://localhost/cb'')]])]"

definition example_clock :: "nat \<Rightarrow> datetime" where
  "example_clock n =
     \<lparr>year = 2024, month = 1, day = 15, hour = 15, minute = 0, second = n, microsecond = 0\<rparr>"

text \<open>
  A first start: the packaged cache only, both variables set, the three secrets, two
  plays, a storage that accepts every write.
\<close>

definition example_world :: world where
  "example_world =
     \<lparr>fs = [packaged_cache_path \<mapsto> ''seed-token''],
      environ = [''PARAMETER_PATH'' \<mapsto> ''/spotify'', ''S3_BUCKET'' \<mapsto> ''bucket''],
      ssm_get_parameters_by_path = (\<lambda>p. Inr example_parameters),
      current_user_recently_played = (\<lambda>limit. Inr example_results),
      auth_cache_write = None,
      s3_put_error = (\<lambda>bucket key. None),
      s3_objects = Map.empty,
      clock = example_clock,
      ticks = 0,
      calls = []\<rparr>"

text \<open>The same with a cache already in \<^verbatim>\<open>/tmp\<close>.\<close>

definition warm_world :: world where
  "warm_world = example_world\<lparr>fs := (fs example_world)(tmp_cache_path \<mapsto> ''fresh-token'')\<rparr>"

text \<open>The same with one variable missing.\<close>

definition no_bucket_world :: world where
  "no_bucket_world = example_world\<lparr>environ := [''PARAMETER_PATH'' \<mapsto> ''/spotify'']\<rparr>"

text \<open>The same with a failing API, with no play, and with a broken item.\<close>

definition api_down_world :: world where
  "api_down_world =
     example_world\<lparr>current_user_recently_played := (\<lambda>limit. Inl (ExternalError ''timeout''))\<rparr>"

definition empty_fetch_world :: world where
  "empty_fetch_world = example_world\<lparr>current_user_recently_played := (\<lambda>limit. Inr empty_results)\<rparr>"

definition broken_item_world :: world where
  "broken_item_world = example_world\<lparr>current_user_recently_played := (\<lambda>limit. Inr broken_results)\<rparr>"

text \<open>
  The same with a storage that refuses the keys under \<^verbatim>\<open>processed/\<close>, so that the
  second write fails; that refuses those under \<^verbatim>\<open>raw/\<close>; and that refuses every write.
\<close>

definition json_refused_world :: world where
  "json_refused_world =
     example_world\<lparr>s3_put_error :=
       (\<lambda>bucket key. if take 10 key = ''processed/'' then Some (ExternalError ''AccessDenied'') else None)\<rparr>"

definition jsonl_refused_world :: world where
  "jsonl_refused_world =
     example_world\<lparr>s3_put_error :=
       (\<lambda>bucket key. if take 4 key = ''raw/'' then Some (ExternalError ''AccessDenied'') else None)\<rparr>"

definition all_refused_world :: world where
  "all_refused_world =
     example_world\<lparr>s3_put_error := (\<lambda>bucket key. Some (ExternalError ''AccessDenied''))\<rparr>"

text \<open>The table of the deduplication example, and a table without duplicates.\<close>

definition example_table :: dataframe where
  "example_table =
     \<lparr>columns = [''track_id'', ''played_at''],
      rows = [[JStr ''a'', JStr ''t1''], [JStr ''b'', JStr ''t1''], [JStr ''c'', JStr ''t2'']]\<rparr>"

definition clean_table :: dataframe where
  "clean_table =
     \<lparr>columns = [''track_id'', ''played_at''],
      rows = [[JStr ''a'', JStr ''t1''], [JStr ''a'', JStr ''t2''], [JStr ''c'', JStr ''t3'']]\<rparr>"


section \<open>Reading an item\<close>

lemma has_keys_Cons [simp]: "has_keys d (k # ks) = (map_of d k \<noteq> None \<and> has_keys d ks)"
  by (simp add: has_keys_def)

lemma has_keys_Nil [simp]: "has_keys d [] = True"
  by (simp add: has_keys_def)

lemma sliceableE:
  assumes "sliceable x"
  obtains s where "x = Some (JStr s)" | xs where "x = Some (JList xs)"
  using assms by (auto elim: sliceable.elims)

lemma artists_shapeE:
  assumes "artists_shape x"
  obtains a rest where "x = Some (JList (JObj a # rest))" "has_keys a [''name'', ''id'']"
  using assms by (auto elim!: artists_shape.elims)

lemma album_shapeE:
  assumes "album_shape x"
  obtains al where "x = Some (JObj al)" "has_keys al [''name'', ''id'', ''release_date'', ''total_tracks'']"
  using assms by (auto elim!: album_shape.elims)

lemma track_shapeE:
  assumes "track_shape x"
  obtains t where "x = Some (JObj t)"
    "has_keys t [''id'', ''name'', ''duration_ms'', ''popularity'', ''explicit'']"
    "artists_shape (map_of t ''artists'')" "album_shape (map_of t ''album'')"
  using assms by (auto elim!: track_shape.elims)

lemma well_shaped_itemE:
  assumes "well_shaped_item item"
  obtains kvs where "item = JObj kvs" "sliceable (map_of kvs ''played_at'')" "track_shape (map_of kvs ''track'')"
  using assms by (auto elim!: well_shaped_item.elims)

lemma eval_entries_well_shaped:
  assumes "well_shaped_item item"
  shows "\<exists>d. eval_entries item track_data_entries = Inr d \<and> map fst d = butlast track_data_keys"
proof -
  from assms obtain kvs where item: "item = JObj kvs"
    and pa: "sliceable (map_of kvs ''played_at'')" and tr: "track_shape (map_of kvs ''track'')"
    by (rule well_shaped_itemE)
  from tr obtain t where t: "map_of kvs ''track'' = Some (JObj t)"
    and tk: "has_keys t [''id'', ''name'', ''duration_ms'', ''popularity'', ''explicit'']"
    and ar: "artists_shape (map_of t ''artists'')" and al: "album_shape (map_of t ''album'')"
    by (rule track_shapeE)
  from ar obtain a rest where a: "map_of t ''artists'' = Some (JList (JObj a # rest))"
    and ak: "has_keys a [''name'', ''id'']"
    by (rule artists_shapeE)
  from al obtain alb where alb: "map_of t ''album'' = Some (JObj alb)"
    and albk: "has_keys alb [''name'', ''id'', ''release_date'', ''total_tracks'']"
    by (rule album_shapeE)
  from pa show ?thesis
  proof (cases rule: sliceableE)
    case (1 s)
    with item t tk a ak alb albk show ?thesis
      by (auto simp: track_data_entries_def track_data_keys_def)
  next
    case (2 xs)
    with item t tk a ak alb albk show ?thesis
      by (auto simp: track_data_entries_def track_data_keys_def)
  qed
qed



lemma eval_entries_all:
  "eval_entries item kps = Inr d \<Longrightarrow> kp \<in> set kps \<Longrightarrow> \<exists>v. getpath item (snd kp) = Inr v"
  by (induction kps arbitrary: d) (auto split: sum.splits)

lemma getitem_Key_InrD:
  "getitem x (Key k) = Inr v \<Longrightarrow> \<exists>kvs. x = JObj kvs \<and> map_of kvs k = Some v"
  by (cases x) (auto split: option.splits)

lemma getitem_Index_InrD:
  "getitem x (Index 0) = Inr v \<Longrightarrow> (\<exists>xs. x = JList (v # xs)) \<or> (\<exists>s. x = JStr s \<and> (\<exists>c. v = JStr [c]))"
  by (cases x) (auto split: if_splits simp: neq_Nil_conv)

lemma getitem_Slice_InrD:
  "getitem x (Slice a b) = Inr v \<Longrightarrow> (\<exists>s. x = JStr s) \<or> (\<exists>xs. x = JList xs)"
  by (cases x) auto

lemma getpath_Key2D:
  assumes "getpath x [Key a, Key b] = Inr v"
  shows "\<exists>kvs t. x = JObj kvs \<and> map_of kvs a = Some (JObj t) \<and> map_of t b = Some v"
  using assms by (auto split: sum.splits dest!: getitem_Key_InrD)

lemma getpath_Key3D:
  assumes "getpath x [Key a, Key b, Key c] = Inr v"
  shows "\<exists>kvs t u. x = JObj kvs \<and> map_of kvs a = Some (JObj t) \<and> map_of t b = Some (JObj u) \<and> map_of u c = Some v"
  using assms by (auto split: sum.splits dest!: getitem_Key_InrD)

lemma getpath_artistD:
  assumes "getpath x [Key a, Key b, Index 0, Key c] = Inr v"
  shows "\<exists>kvs t u rest. x = JObj kvs \<and> map_of kvs a = Some (JObj t) \<and> map_of t b = Some (JList (JObj u # rest)) \<and> map_of u c = Some v"
  using assms by (auto split: sum.splits dest!: getitem_Key_InrD getitem_Index_InrD)

lemma getpath_sliceD:
  assumes "getpath x [Key a, Slice i j] = Inr v"
  shows "\<exists>kvs. x = JObj kvs \<and> sliceable (map_of kvs a)"
  using assms by (auto split: sum.splits dest!: getitem_Key_InrD getitem_Slice_InrD)

lemma eval_entries_InrD:
  assumes ev: "eval_entries item track_data_entries = Inr d"
  shows "well_shaped_item item"
proof -
  have p: "\<And>k ss. (k, ss) \<in> set track_data_entries \<Longrightarrow> \<exists>v. getpath item ss = Inr v"
    using eval_entries_all [OF ev] by fastforce
  have m: "\<And>k ss. (k, ss) \<in> set track_data_entries \<longleftrightarrow> List.member track_data_entries (k, ss)"
    by simp
  obtain kvs where item: "item = JObj kvs" and sl: "sliceable (map_of kvs ''played_at'')"
    using p [of "''played_date''" "[Key ''played_at'', Slice 0 10]"] getpath_sliceD
    by (fastforce simp: track_data_entries_def)
  obtain t where t: "map_of kvs ''track'' = Some (JObj t)" and t1: "map_of t ''id'' \<noteq> None"
    using p [of "''track_id''" "[Key ''track'', Key ''id'']"] getpath_Key2D item
    by (fastforce simp: track_data_entries_def)
  have t2: "map_of t ''name'' \<noteq> None"
    using p [of "''name''" "[Key ''track'', Key ''name'']"] getpath_Key2D [of item "''track''" "''name''"] item t
    by (fastforce simp: track_data_entries_def)
  have t3: "map_of t ''duration_ms'' \<noteq> None"
    using p [of "''duration_ms''" "[Key ''track'', Key ''duration_ms'']"] getpath_Key2D [of item "''track''" "''duration_ms''"] item t
    by (fastforce simp: track_data_entries_def)
  have t4: "map_of t ''popularity'' \<noteq> None"
    using p [of "''popularity''" "[Key ''track'', Key ''popularity'']"] getpath_Key2D [of item "''track''" "''popularity''"] item t
    by (fastforce simp: track_data_entries_def)
  have t5: "map_of t ''explicit'' \<noteq> None"
    using p [of "''explicit''" "[Key ''track'', Key ''explicit'']"] getpath_Key2D [of item "''track''" "''explicit''"] item t
    by (fastforce simp: track_data_entries_def)
  obtain a rest where a: "map_of t ''artists'' = Some (JList (JObj a # rest))" and a1: "map_of a ''name'' \<noteq> None"
    using p [of "''artist''" "[Key ''track'', Key ''artists'', Index 0, Key ''name'']"]
      getpath_artistD [of item "''track''" "''artists''" "''name''"] item t
    by (fastforce simp: track_data_entries_def)
  have a2: "map_of a ''id'' \<noteq> None"
    using p [of "''artist_id''" "[Key ''track'', Key ''artists'', Index 0, Key ''id'']"]
      getpath_artistD [of item "''track''" "''artists''" "''id''"] item t a
    by (fastforce simp: track_data_entries_def)
  obtain al where al: "map_of t ''album'' = Some (JObj al)" and al1: "map_of al ''name'' \<noteq> None"
    using p [of "''album''" "[Key ''track'', Key ''album'', Key ''name'']"]
      getpath_Key3D [of item "''track''" "''album''" "''name''"] item t
    by (fastforce simp: track_data_entries_def)
  have al2: "map_of al ''id'' \<noteq> None"
    using p [of "''album_id''" "[Key ''track'', Key ''album'', Key ''id'']"]
      getpath_Key3D [of item "''track''" "''album''" "''id''"] item t al
    by (fastforce simp: track_data_entries_def)
  have al3: "map_of al ''release_date'' \<noteq> None"
    using p [of "''release_date''" "[Key ''track'', Key ''album'', Key ''release_date'']"]
      getpath_Key3D [of item "''track''" "''album''" "''release_date''"] item t al
    by (fastforce simp: track_data_entries_def)
  have al4: "map_of al ''total_tracks'' \<noteq> None"
    using p [of "''total_tracks''" "[Key ''track'', Key ''album'', Key ''total_tracks'']"]
      getpath_Key3D [of item "''track''" "''album''" "''total_tracks''"] item t al
    by (fastforce simp: track_data_entries_def)
  show ?thesis
    using item sl t t1 t2 t3 t4 t5 a a1 a2 al al1 al2 al3 al4 by (simp add: has_keys_def)
qed



lemma track_data_ok:
  "eval_entries item track_data_entries = Inr d \<Longrightarrow>
   track_data w item =
     (Inr (d @ [(''collection_timestamp'', JStr (isoformat (clock w (ticks w))))]), w\<lparr>ticks := Suc (ticks w)\<rparr>)"
  by (simp add: track_data_def datetime_now_def)

lemma track_data_fail:
  "eval_entries item track_data_entries = Inl e \<Longrightarrow> track_data w item = (Inl e, w)"
  by (simp add: track_data_def)

lemma track_data_fst_cong:
  "clock w = clock w' \<Longrightarrow> ticks w = ticks w' \<Longrightarrow> fst (track_data w item) = fst (track_data w' item)"
  by (simp add: track_data_def datetime_now_def split: sum.splits)

lemma for_item_in_frame:
  "\<exists>n. snd (for_item_in w items acc) = w\<lparr>ticks := ticks w + n\<rparr> \<and> n \<le> length items"
proof (induction items arbitrary: w acc)
  case Nil
  show ?case by simp
next
  case (Cons item items)
  show ?case
  proof (cases "eval_entries item track_data_entries")
    case (Inl e)
    then show ?thesis by (intro exI [of _ 0]) (simp add: track_data_fail)
  next
    case (Inr d)
    from Cons.IH [of "w\<lparr>ticks := Suc (ticks w)\<rparr>" "acc @ [d @ [(''collection_timestamp'', JStr (isoformat (clock w (ticks w))))]]"]
    obtain n where "snd (for_item_in (w\<lparr>ticks := Suc (ticks w)\<rparr>) items
        (acc @ [d @ [(''collection_timestamp'', JStr (isoformat (clock w (ticks w))))]]))
        = w\<lparr>ticks := Suc (ticks w) + n\<rparr>" and "n \<le> length items"
      by auto
    with Inr show ?thesis
      by (intro exI [of _ "Suc n"]) (simp add: track_data_ok)
  qed
qed

lemma for_item_in_ok:
  assumes "list_all well_shaped_item items"
  shows "\<exists>new. for_item_in w items acc = (Inr (acc @ new), w\<lparr>ticks := ticks w + length items\<rparr>)
           \<and> length new = length items
           \<and> (\<forall>i<length items. fst (track_data (w\<lparr>ticks := ticks w + i\<rparr>) (items ! i)) = Inr (new ! i))"
  using assms
proof (induction items arbitrary: w acc)
  case Nil
  show ?case by simp
next
  case (Cons item items)
  from Cons.prems have "well_shaped_item item" and rest: "list_all well_shaped_item items"
    by simp_all
  then obtain d where d: "eval_entries item track_data_entries = Inr d"
    using eval_entries_well_shaped by blast
  let ?r = "d @ [(''collection_timestamp'', JStr (isoformat (clock w (ticks w))))]"
  let ?w = "w\<lparr>ticks := Suc (ticks w)\<rparr>"
  from Cons.IH [OF rest, of ?w "acc @ [?r]"]
  obtain new where run: "for_item_in ?w items (acc @ [?r]) = (Inr ((acc @ [?r]) @ new), ?w\<lparr>ticks := ticks ?w + length items\<rparr>)"
    and len: "length new = length items"
    and each: "\<forall>i<length items. fst (track_data (?w\<lparr>ticks := ticks ?w + i\<rparr>) (items ! i)) = Inr (new ! i)"
    by blast
  have "for_item_in w (item # items) acc = (Inr (acc @ (?r # new)), w\<lparr>ticks := ticks w + length (item # items)\<rparr>)"
    using d run by (simp add: track_data_ok)
  moreover have "length (?r # new) = length (item # items)"
    using len by simp
  moreover have "\<forall>i<length (item # items). fst (track_data (w\<lparr>ticks := ticks w + i\<rparr>) ((item # items) ! i)) = Inr ((?r # new) ! i)"
  proof (intro allI impI)
    fix i assume i: "i < length (item # items)"
    show "fst (track_data (w\<lparr>ticks := ticks w + i\<rparr>) ((item # items) ! i)) = Inr ((?r # new) ! i)"
    proof (cases i)
      case 0
      then show ?thesis using d by (simp add: track_data_ok)
    next
      case (Suc j)
      with i each show ?thesis by simp
    qed
  qed
  ultimately show ?case by blast
qed

lemma for_item_in_bad:
  assumes "\<not> list_all well_shaped_item items"
  shows "\<exists>e. fst (for_item_in w items acc) = Inl e"
  using assms
proof (induction items arbitrary: w acc)
  case Nil
  then show ?case by simp
next
  case (Cons item items)
  show ?case
  proof (cases "eval_entries item track_data_entries")
    case (Inl e)
    then show ?thesis by (simp add: track_data_fail)
  next
    case (Inr d)
    then have "well_shaped_item item" by (rule eval_entries_InrD)
    with Cons.prems have "\<not> list_all well_shaped_item items" by simp
    from Cons.IH [OF this] Inr show ?thesis by (simp add: track_data_ok)
  qed
qed

lemma eval_entries_played_at:
  assumes ev: "eval_entries item track_data_entries = Inr d"
    and pa: "played_at_string item = Some s"
  shows "map_of d ''played_at'' = Some (JStr s)
       \<and> map_of d ''played_date'' = Some (JStr (take 10 s))
       \<and> map_of d ''played_hour'' = Some (JStr (take 2 (drop 11 s)))"
proof -
  from ev have "well_shaped_item item" by (rule eval_entries_InrD)
  then obtain kvs where item: "item = JObj kvs" and tr: "track_shape (map_of kvs ''track'')"
    by (rule well_shaped_itemE)
  from pa item have s: "map_of kvs ''played_at'' = Some (JStr s)"
    by (auto split: option.splits json.splits)
  from tr obtain t where t: "map_of kvs ''track'' = Some (JObj t)"
    and tk: "has_keys t [''id'', ''name'', ''duration_ms'', ''popularity'', ''explicit'']"
    and ar: "artists_shape (map_of t ''artists'')" and al: "album_shape (map_of t ''album'')"
    by (rule track_shapeE)
  from ar obtain a rest where a: "map_of t ''artists'' = Some (JList (JObj a # rest))"
    and ak: "has_keys a [''name'', ''id'']"
    by (rule artists_shapeE)
  from al obtain alb where alb: "map_of t ''album'' = Some (JObj alb)"
    and albk: "has_keys alb [''name'', ''id'', ''release_date'', ''total_tracks'']"
    by (rule album_shapeE)
  from ev item s t tk a ak alb albk show ?thesis
    by (auto simp: track_data_entries_def)
qed

lemma eval_entries_keys:
  assumes ev: "eval_entries item kps = Inr d"
  shows "map fst d = map fst kps"
  using assms by (induction kps arbitrary: d) (auto split: sum.splits)

lemma track_data_keys_eq: "map fst track_data_entries @ [''collection_timestamp''] = track_data_keys"
  by (simp add: track_data_entries_def track_data_keys_def)

lemma track_data_record:
  assumes "fst (track_data w item) = Inr r"
  shows "map fst r = track_data_keys
       \<and> (\<forall>s. played_at_string item = Some s \<longrightarrow>
            map_of r ''played_at'' = Some (JStr s)
          \<and> map_of r ''played_date'' = Some (JStr (take 10 s))
          \<and> map_of r ''played_hour'' = Some (JStr (take 2 (drop 11 s))))"
proof (cases "eval_entries item track_data_entries")
  case (Inl e)
  with assms show ?thesis by (simp add: track_data_fail)
next
  case (Inr d)
  with assms have r: "r = d @ [(''collection_timestamp'', JStr (isoformat (clock w (ticks w))))]"
    by (simp add: track_data_ok)
  have "map fst r = track_data_keys"
    using r eval_entries_keys [OF Inr] track_data_keys_eq by simp
  moreover have "map_of r ''played_at'' = Some (JStr s)
          \<and> map_of r ''played_date'' = Some (JStr (take 10 s))
          \<and> map_of r ''played_hour'' = Some (JStr (take 2 (drop 11 s)))"
    if "played_at_string item = Some s" for s
    using eval_entries_played_at [OF Inr that] r by (simp add: map_add_def)
  ultimately show ?thesis by blast
qed

lemma api_request_fst: "fst (api_request limit w) = current_user_recently_played w limit"
  by (simp add: api_request_def)

lemma api_request_snd:
  "calls (snd (api_request limit w)) = calls w @ [SpotifyRecentlyPlayed limit]"
  "clock (snd (api_request limit w)) = clock w"
  "ticks (snd (api_request limit w)) = ticks w"
  "environ (snd (api_request limit w)) = environ w"
  "s3_objects (snd (api_request limit w)) = s3_objects w"
  "s3_put_error (snd (api_request limit w)) = s3_put_error w"
  "current_user_recently_played (snd (api_request limit w)) = current_user_recently_played w"
  by (simp_all add: api_request_def)

lemma api_request_path_exists:
  "path_exists w p \<Longrightarrow> path_exists (snd (api_request limit w)) p"
  by (simp add: api_request_def path_exists_def split: option.splits)

lemma get_recent_tracks_unfold:
  "get_recent_tracks w =
     (case current_user_recently_played w 50 of
        Inl e \<Rightarrow> ([], snd (api_request 50 w))
      | Inr results \<Rightarrow>
          (case dict_get results ''items'' (JList []) of
             Inl e \<Rightarrow> ([], snd (api_request 50 w))
           | Inr items \<Rightarrow>
               if \<not> truthy items then ([], snd (api_request 50 w))
               else
                 (case iterate items of
                    Inl e \<Rightarrow> ([], snd (api_request 50 w))
                  | Inr its \<Rightarrow>
                      (case fst (for_item_in (snd (api_request 50 w)) its []) of
                         Inl e \<Rightarrow> []
                       | Inr all_tracks \<Rightarrow> all_tracks,
                       snd (for_item_in (snd (api_request 50 w)) its [])))))"
proof -
  obtain r w1 where a: "api_request 50 w = (r, w1)"
    by (cases "api_request 50 w")
  then have r: "current_user_recently_played w 50 = r"
    using api_request_fst [of 50 w] by simp
  show ?thesis
    by (simp add: get_recent_tracks_def a r split: sum.splits prod.splits)
qed

section \<open>The fetch\<close>

lemma get_recent_tracks_world:
  "\<exists>n. snd (get_recent_tracks w) = (snd (api_request 50 w))\<lparr>ticks := ticks w + n\<rparr>"
proof -
  let ?w1 = "snd (api_request 50 w)"
  have t: "ticks ?w1 = ticks w" by (rule api_request_snd)
  have "snd (get_recent_tracks w) = ?w1 \<or> (\<exists>its. snd (get_recent_tracks w) = snd (for_item_in ?w1 its []))"
    by (auto simp: get_recent_tracks_unfold split: sum.splits)
  then show ?thesis
  proof
    assume "snd (get_recent_tracks w) = ?w1"
    then have "snd (get_recent_tracks w) = ?w1\<lparr>ticks := ticks w + 0\<rparr>"
      using t by simp
    then show ?thesis ..
  next
    assume "\<exists>its. snd (get_recent_tracks w) = snd (for_item_in ?w1 its [])"
    then obtain its where "snd (get_recent_tracks w) = snd (for_item_in ?w1 its [])" ..
    moreover obtain n where "snd (for_item_in ?w1 its []) = ?w1\<lparr>ticks := ticks ?w1 + n\<rparr>"
      using for_item_in_frame by blast
    ultimately show ?thesis using t by auto
  qed
qed

lemma get_recent_tracks_snd:
  "calls (snd (get_recent_tracks w)) = calls w @ [SpotifyRecentlyPlayed 50]"
  "clock (snd (get_recent_tracks w)) = clock w"
  "environ (snd (get_recent_tracks w)) = environ w"
  "s3_objects (snd (get_recent_tracks w)) = s3_objects w"
  "s3_put_error (snd (get_recent_tracks w)) = s3_put_error w"
proof -
  obtain n where "snd (get_recent_tracks w) = (snd (api_request 50 w))\<lparr>ticks := ticks w + n\<rparr>"
    using get_recent_tracks_world by blast
  then show "calls (snd (get_recent_tracks w)) = calls w @ [SpotifyRecentlyPlayed 50]"
    "clock (snd (get_recent_tracks w)) = clock w"
    "environ (snd (get_recent_tracks w)) = environ w"
    "s3_objects (snd (get_recent_tracks w)) = s3_objects w"
    "s3_put_error (snd (get_recent_tracks w)) = s3_put_error w"
    by (simp_all add: api_request_snd)
qed

lemma get_recent_tracks_path_exists:
  assumes "path_exists w p"
  shows "path_exists (snd (get_recent_tracks w)) p"
proof -
  obtain n where "snd (get_recent_tracks w) = (snd (api_request 50 w))\<lparr>ticks := ticks w + n\<rparr>"
    using get_recent_tracks_world by blast
  then show ?thesis
    using api_request_path_exists [OF assms, of 50] by (simp add: path_exists_def)
qed

lemma get_recent_tracks_api_error:
  "isl (current_user_recently_played w 50) \<Longrightarrow> fst (get_recent_tracks w) = []"
  by (cases "current_user_recently_played w 50") (simp_all add: get_recent_tracks_unfold)

lemma response_items_dict_get:
  "response_items results = Some items \<Longrightarrow> dict_get results ''items'' (JList []) = Inr (JList items)"
  by (cases results) (auto split: option.splits json.splits)

lemma falsy_iterate: "\<not> truthy v \<Longrightarrow> iterate v = Inr its \<Longrightarrow> its = []"
  by (cases v) auto

lemma get_recent_tracks_iterated:
  assumes api: "current_user_recently_played w 50 = Inr results"
    and get: "dict_get results ''items'' (JList []) = Inr v"
    and it: "iterate v = Inr items"
    and ok: "list_all well_shaped_item items"
  shows "\<exists>new. get_recent_tracks w = (new, (snd (api_request 50 w))\<lparr>ticks := ticks w + length items\<rparr>)
           \<and> length new = length items
           \<and> (\<forall>i<length items. fst (track_data (w\<lparr>ticks := ticks w + i\<rparr>) (items ! i)) = Inr (new ! i))"
proof (cases "truthy v")
  case False
  then have "items = []" using it by (rule falsy_iterate)
  moreover have "ticks (snd (api_request 50 w)) = ticks w" by (rule api_request_snd)
  ultimately show ?thesis
    using api get False by (simp add: get_recent_tracks_unfold)
next
  case True
  let ?w1 = "snd (api_request 50 w)"
  have t: "ticks ?w1 = ticks w" and c: "clock ?w1 = clock w" by (rule api_request_snd)+
  from for_item_in_ok [OF ok, of ?w1 "[]"]
  obtain new where run: "for_item_in ?w1 items [] = (Inr new, ?w1\<lparr>ticks := ticks ?w1 + length items\<rparr>)"
    and len: "length new = length items"
    and each: "\<forall>i<length items. fst (track_data (?w1\<lparr>ticks := ticks ?w1 + i\<rparr>) (items ! i)) = Inr (new ! i)"
    by auto
  have "get_recent_tracks w = (new, ?w1\<lparr>ticks := ticks w + length items\<rparr>)"
    using api get it True run t by (simp add: get_recent_tracks_unfold)
  moreover have "fst (track_data (w\<lparr>ticks := ticks w + i\<rparr>) (items ! i)) = Inr (new ! i)" if "i < length items" for i
  proof -
    have "fst (track_data (w\<lparr>ticks := ticks w + i\<rparr>) (items ! i))
        = fst (track_data (?w1\<lparr>ticks := ticks ?w1 + i\<rparr>) (items ! i))"
      by (rule track_data_fst_cong) (simp_all add: t c)
    with each that show ?thesis by simp
  qed
  ultimately show ?thesis using len by blast
qed

lemma get_recent_tracks_bad_item:
  assumes api: "current_user_recently_played w 50 = Inr results"
    and get: "dict_get results ''items'' (JList []) = Inr v"
    and it: "iterate v = Inr items"
    and bad: "\<not> list_all well_shaped_item items"
  shows "fst (get_recent_tracks w) = []"
proof -
  obtain e where "fst (for_item_in (snd (api_request 50 w)) items []) = Inl e"
    using for_item_in_bad [OF bad] by blast
  then show ?thesis
    using api get it by (simp add: get_recent_tracks_unfold)
qed

lemma get_recent_tracks_nonempty:
  assumes "fst (get_recent_tracks w) \<noteq> []"
  shows "\<exists>results v items. current_user_recently_played w 50 = Inr results
           \<and> dict_get results ''items'' (JList []) = Inr v
           \<and> iterate v = Inr items
           \<and> list_all well_shaped_item items"
proof -
  from assms obtain results where api: "current_user_recently_played w 50 = Inr results"
    by (cases "current_user_recently_played w 50") (simp_all add: get_recent_tracks_unfold)
  from assms api obtain v where get: "dict_get results ''items'' (JList []) = Inr v"
    by (cases "dict_get results ''items'' (JList [])") (simp_all add: get_recent_tracks_unfold)
  from assms api get have tr: "truthy v"
    by (cases "truthy v") (simp_all add: get_recent_tracks_unfold)
  from assms api get tr obtain items where it: "iterate v = Inr items"
    by (cases "iterate v") (simp_all add: get_recent_tracks_unfold)
  have "list_all well_shaped_item items"
    using get_recent_tracks_bad_item [OF api get it] assms by blast
  with api get it show ?thesis by blast
qed

section \<open>The writes and the handler\<close>

lemma upload_string_to_s3_fst:
  "fst (upload_string_to_s3 c b k w) = (s3_put_error w b k = None)"
  by (simp add: upload_string_to_s3_def Let_def split: option.splits)

lemma upload_string_to_s3_snd:
  "calls (snd (upload_string_to_s3 c b k w)) = calls w @ [S3PutObject b k]"
  "s3_objects (snd (upload_string_to_s3 c b k w)) =
     (if s3_put_error w b k = None then (s3_objects w)((b, k) \<mapsto> c) else s3_objects w)"
  "clock (snd (upload_string_to_s3 c b k w)) = clock w"
  "ticks (snd (upload_string_to_s3 c b k w)) = ticks w"
  "s3_put_error (snd (upload_string_to_s3 c b k w)) = s3_put_error w"
  "fs (snd (upload_string_to_s3 c b k w)) = fs w"
  by (simp_all add: upload_string_to_s3_def Let_def split: option.splits)

lemma save_json_for_glue_unfold:
  "save_json_for_glue tracks b ''raw/historial'' w =
     (if s3_put_error w b (jsonl_key w) = None
      then Some (''s3://'' @ b @ ''/'' @ jsonl_key w) else None,
      snd (upload_string_to_s3 (jsonl_content tracks) b (jsonl_key w) (w\<lparr>ticks := ticks w + 2\<rparr>)))"
proof -
  let ?w2 = "w\<lparr>ticks := ticks w + 2\<rparr>"
  obtain ok w3 where u: "upload_string_to_s3 (jsonl_content tracks) b (jsonl_key w) ?w2 = (ok, w3)"
    by (cases "upload_string_to_s3 (jsonl_content tracks) b (jsonl_key w) ?w2")
  then have ok: "ok = (s3_put_error w b (jsonl_key w) = None)"
    using upload_string_to_s3_fst [of "jsonl_content tracks" b "jsonl_key w" ?w2] by simp
  show ?thesis
    using u ok by (simp add: save_json_for_glue_def datetime_now_def jsonl_key_def Let_def bool.case_eq_if)
qed

lemma save_regular_json_unfold:
  "save_regular_json tracks b ''processed/historial'' w =
     (let k = json_file_name ''processed/historial'' (strftime_timestamp (clock w (ticks w))) in
      (if s3_put_error w b k = None then Some (''s3://'' @ b @ ''/'' @ k) else None,
       snd (upload_string_to_s3 (json_content tracks) b k (w\<lparr>ticks := Suc (ticks w)\<rparr>))))"
proof -
  let ?k = "json_file_name ''processed/historial'' (strftime_timestamp (clock w (ticks w)))"
  let ?w1 = "w\<lparr>ticks := Suc (ticks w)\<rparr>"
  obtain ok w2 where u: "upload_string_to_s3 (json_content tracks) b ?k ?w1 = (ok, w2)"
    by (cases "upload_string_to_s3 (json_content tracks) b ?k ?w1")
  then have ok: "ok = (s3_put_error w b ?k = None)"
    using upload_string_to_s3_fst [of "json_content tracks" b ?k ?w1] by simp
  show ?thesis
    using u ok by (simp add: save_regular_json_def datetime_now_def Let_def bool.case_eq_if)
qed

text \<open>The two writes after a fetch that left the world \<open>w1\<close> with the records \<open>tracks\<close>.\<close>

lemma writes_after_fetch:
  fixes w1 :: world and b :: string and tracks :: "py_dict list"
  assumes g: "save_json_for_glue tracks b ''raw/historial'' w1 = (glue_url, w2)"
    and r: "save_regular_json tracks b ''processed/historial'' w2 = (regular_url, w3)"
  shows "url_truthy glue_url = (s3_put_error w1 b (jsonl_key w1) = None)"
    and "url_truthy regular_url = (s3_put_error w1 b (json_key w1) = None)"
    and "calls w3 = calls w1 @ [S3PutObject b (jsonl_key w1), S3PutObject b (json_key w1)]"
    and "s3_objects w3 =
          (let m = (if s3_put_error w1 b (jsonl_key w1) = None
                    then (s3_objects w1)((b, jsonl_key w1) \<mapsto> jsonl_content tracks) else s3_objects w1)
           in if s3_put_error w1 b (json_key w1) = None
              then m((b, json_key w1) \<mapsto> json_content tracks) else m)"
    and "fs w3 = fs w1"
proof -
  let ?u1 = "snd (upload_string_to_s3 (jsonl_content tracks) b (jsonl_key w1) (w1\<lparr>ticks := ticks w1 + 2\<rparr>))"
  from g have gu: "glue_url = (if s3_put_error w1 b (jsonl_key w1) = None
      then Some (''s3://'' @ b @ ''/'' @ jsonl_key w1) else None)" and w2: "w2 = ?u1"
    by (simp_all add: save_json_for_glue_unfold)
  have f2: "clock w2 = clock w1" "ticks w2 = ticks w1 + 2" "s3_put_error w2 = s3_put_error w1"
    "calls w2 = calls w1 @ [S3PutObject b (jsonl_key w1)]" "fs w2 = fs w1"
    "s3_objects w2 = (if s3_put_error w1 b (jsonl_key w1) = None
                    then (s3_objects w1)((b, jsonl_key w1) \<mapsto> jsonl_content tracks) else s3_objects w1)"
    unfolding w2 by (simp_all add: upload_string_to_s3_snd)
  have k: "json_file_name ''processed/historial'' (strftime_timestamp (clock w1 (Suc (Suc (ticks w1))))) = json_key w1"
    by (simp add: json_key_def)
  let ?u2 = "snd (upload_string_to_s3 (json_content tracks) b (json_key w1) (w2\<lparr>ticks := Suc (ticks w2)\<rparr>))"
  from r have ru: "regular_url = (if s3_put_error w1 b (json_key w1) = None
      then Some (''s3://'' @ b @ ''/'' @ json_key w1) else None)" and w3: "w3 = ?u2"
    by (simp_all add: save_regular_json_unfold Let_def k f2)
  show "url_truthy glue_url = (s3_put_error w1 b (jsonl_key w1) = None)"
    by (simp add: gu)
  show "url_truthy regular_url = (s3_put_error w1 b (json_key w1) = None)"
    by (simp add: ru)
  show "calls w3 = calls w1 @ [S3PutObject b (jsonl_key w1), S3PutObject b (json_key w1)]"
    unfolding w3 by (simp add: upload_string_to_s3_snd f2)
  show "s3_objects w3 =
          (let m = (if s3_put_error w1 b (jsonl_key w1) = None
                    then (s3_objects w1)((b, jsonl_key w1) \<mapsto> jsonl_content tracks) else s3_objects w1)
           in if s3_put_error w1 b (json_key w1) = None
              then m((b, json_key w1) \<mapsto> json_content tracks) else m)"
    unfolding w3 by (simp add: upload_string_to_s3_snd f2 Let_def)
  show "fs w3 = fs w1"
    unfolding w3 by (simp add: upload_string_to_s3_snd f2)
qed

lemma process_tracks_empty:
  "fst (get_recent_tracks w) = [] \<Longrightarrow> process_tracks b w = (no_new_tracks_response, snd (get_recent_tracks w))"
  by (cases "get_recent_tracks w") (simp add: process_tracks_def)

lemma process_tracks_writes:
  assumes ne: "fst (get_recent_tracks w) \<noteq> []"
    and w1: "w1 = snd (get_recent_tracks w)"
  shows "fst (process_tracks b w) =
           (if s3_put_error w b (jsonl_key w1) = None \<and> s3_put_error w b (json_key w1) = None
            then saved_response else no_new_tracks_response)"
    and "calls (snd (process_tracks b w)) =
           calls w @ [SpotifyRecentlyPlayed 50, S3PutObject b (jsonl_key w1), S3PutObject b (json_key w1)]"
    and "s3_objects (snd (process_tracks b w)) =
          (let m = (if s3_put_error w b (jsonl_key w1) = None
                    then (s3_objects w)((b, jsonl_key w1) \<mapsto> jsonl_content (fst (get_recent_tracks w)))
                    else s3_objects w)
           in if s3_put_error w b (json_key w1) = None
              then m((b, json_key w1) \<mapsto> json_content (fst (get_recent_tracks w))) else m)"
    and "fs (snd (process_tracks b w)) = fs w1"
proof -
  obtain tracks w' where g: "get_recent_tracks w = (tracks, w')"
    by (cases "get_recent_tracks w")
  then have tr: "fst (get_recent_tracks w) = tracks" and w': "w1 = w'"
    by (simp_all add: w1)
  from ne tr have ne': "tracks \<noteq> []" by simp
  obtain glue_url w2 where sg: "save_json_for_glue tracks b ''raw/historial'' w' = (glue_url, w2)"
    by (cases "save_json_for_glue tracks b ''raw/historial'' w'")
  obtain regular_url w3 where sr: "save_regular_json tracks b ''processed/historial'' w2 = (regular_url, w3)"
    by (cases "save_regular_json tracks b ''processed/historial'' w2")
  note wr = writes_after_fetch [OF sg sr]
  have e: "s3_put_error w' = s3_put_error w" "s3_objects w' = s3_objects w"
    "calls w' = calls w @ [SpotifyRecentlyPlayed 50]"
    using get_recent_tracks_snd [of w] by (simp_all add: g)
  have p: "process_tracks b w =
      (if url_truthy glue_url \<and> url_truthy regular_url then saved_response else no_new_tracks_response, w3)"
    using ne' sg sr by (simp add: process_tracks_def g del: url_truthy.simps)
  show "fst (process_tracks b w) =
           (if s3_put_error w b (jsonl_key w1) = None \<and> s3_put_error w b (json_key w1) = None
            then saved_response else no_new_tracks_response)"
    by (simp add: p wr(1,2) e w' del: url_truthy.simps)
  show "calls (snd (process_tracks b w)) =
           calls w @ [SpotifyRecentlyPlayed 50, S3PutObject b (jsonl_key w1), S3PutObject b (json_key w1)]"
    by (simp add: p wr(3) e w')
  show "s3_objects (snd (process_tracks b w)) =
          (let m = (if s3_put_error w b (jsonl_key w1) = None
                    then (s3_objects w)((b, jsonl_key w1) \<mapsto> jsonl_content (fst (get_recent_tracks w)))
                    else s3_objects w)
           in if s3_put_error w b (json_key w1) = None
              then m((b, json_key w1) \<mapsto> json_content (fst (get_recent_tracks w))) else m)"
    by (simp only: p snd_conv wr(4) e w' tr)
  show "fs (snd (process_tracks b w)) = fs w1"
    by (simp add: p wr(5) w')
qed

lemma process_tracks_status: "statusCode (fst (process_tracks b w)) = 200"
proof (cases "fst (get_recent_tracks w) = []")
  case True
  then show ?thesis by (simp add: process_tracks_empty no_new_tracks_response_def)
next
  case False
  then show ?thesis
    by (simp add: process_tracks_writes(1) [OF False refl] saved_response_def no_new_tracks_response_def)
qed

lemma process_tracks_path_exists:
  assumes "path_exists w p"
  shows "path_exists (snd (process_tracks b w)) p"
proof (cases "fst (get_recent_tracks w) = []")
  case True
  then show ?thesis using get_recent_tracks_path_exists [OF assms] by (simp add: process_tracks_empty)
next
  case False
  then show ?thesis
    using get_recent_tracks_path_exists [OF assms]
    by (simp add: process_tracks_writes(4) [OF False refl] path_exists_def)
qed

lemma process_tracks_no_copy:
  "filter is_file_copy (calls (snd (process_tracks b w))) = filter is_file_copy (calls w)"
proof (cases "fst (get_recent_tracks w) = []")
  case True
  then show ?thesis by (simp add: process_tracks_empty get_recent_tracks_snd)
next
  case False
  then show ?thesis by (simp add: process_tracks_writes(2) [OF False refl])
qed

lemma get_secrets_snd:
  "snd (get_secrets p w) = w\<lparr>calls := calls w @ [SsmGetParametersByPath p]\<rparr>"
  by (simp add: get_secrets_def Let_def split: sum.splits)

lemma get_config_environ: "environ w = environ w' \<Longrightarrow> get_config w = get_config w'"
  by (auto simp: get_config_def split: option.splits)

lemma lambda_handler_config_error:
  "get_config (cache_handoff w) = Inl e \<Longrightarrow> lambda_handler w = (Inl e, cache_handoff w)"
  by (simp add: lambda_handler_def)

lemma lambda_handler_secrets_error:
  assumes "get_config (cache_handoff w) = Inr (p, b)"
    and "fst (get_secrets p (cache_handoff w)) = Inl e"
  shows "lambda_handler w = (Inl e, snd (get_secrets p (cache_handoff w)))"
  using assms by (cases "get_secrets p (cache_handoff w)") (simp add: lambda_handler_def)

lemma lambda_handler_run:
  assumes "get_config (cache_handoff w) = Inr (p, b)"
    and "\<not> isl (fst (get_secrets p (cache_handoff w)))"
  shows "lambda_handler w =
     (Inr (fst (process_tracks b (snd (get_secrets p (cache_handoff w))))),
      snd (process_tracks b (snd (get_secrets p (cache_handoff w)))))"
proof -
  obtain r w1 where s: "get_secrets p (cache_handoff w) = (r, w1)"
    by (cases "get_secrets p (cache_handoff w)")
  with assms(2) obtain secrets where r: "r = Inr secrets"
    by (cases r) simp_all
  show ?thesis
    using assms(1) s r by (simp add: lambda_handler_def split: prod.splits)
qed

lemma cache_handoff_fields:
  "environ (cache_handoff w) = environ w"
  "ssm_get_parameters_by_path (cache_handoff w) = ssm_get_parameters_by_path w"
  "current_user_recently_played (cache_handoff w) = current_user_recently_played w"
  "s3_put_error (cache_handoff w) = s3_put_error w"
  "s3_objects (cache_handoff w) = s3_objects w"
  "clock (cache_handoff w) = clock w"
  "ticks (cache_handoff w) = ticks w"
  by (simp_all add: cache_handoff_def shutil_copy_def)

lemma cache_handoff_calls:
  "calls (cache_handoff w) =
     calls w @ (if \<not> path_exists w tmp_cache_path \<and> path_exists w packaged_cache_path
                then [FileCopy packaged_cache_path tmp_cache_path] else [])"
  by (simp add: cache_handoff_def shutil_copy_def)

lemma before_fetch_fields:
  "environ (before_fetch w p) = environ w"
  "current_user_recently_played (before_fetch w p) = current_user_recently_played w"
  "s3_put_error (before_fetch w p) = s3_put_error w"
  "s3_objects (before_fetch w p) = s3_objects w"
  "clock (before_fetch w p) = clock w"
  "ticks (before_fetch w p) = ticks w"
  "fs (before_fetch w p) = fs (cache_handoff w)"
  "calls (before_fetch w p) = calls (cache_handoff w) @ [SsmGetParametersByPath p]"
  by (simp_all add: before_fetch_def get_secrets_snd cache_handoff_fields)

lemma handler_after_fetch:
  assumes "reaches_fetch w p b"
  shows "lambda_handler w =
     (Inr (fst (process_tracks b (before_fetch w p))), snd (process_tracks b (before_fetch w p)))"
  using assms lambda_handler_run [of w p b] by (simp add: reaches_fetch_def before_fetch_def)

lemma handler_cases:
  obtains e where "get_config (cache_handoff w) = Inl e" "lambda_handler w = (Inl e, cache_handoff w)"
  | p b e where "get_config (cache_handoff w) = Inr (p, b)" "lambda_handler w = (Inl e, before_fetch w p)"
  | p b where "reaches_fetch w p b"
proof (cases "get_config (cache_handoff w)")
  case (Inl e)
  then show ?thesis using that(1) lambda_handler_config_error by blast
next
  case (Inr pb)
  obtain p b where pb: "pb = (p, b)" by (cases pb)
  show ?thesis
  proof (cases "fst (get_secrets p (cache_handoff w))")
    case (Inl e)
    then show ?thesis
      using that(2) [of p b e] Inr pb lambda_handler_secrets_error [of w p b e]
      by (simp add: before_fetch_def)
  next
    case (Inr secrets)
    then show ?thesis
      using that(3) [of p b] \<open>get_config (cache_handoff w) = Inr pb\<close> pb
      by (simp add: reaches_fetch_def)
  qed
qed

lemma fetch_records:
  assumes api: "current_user_recently_played w 50 = Inr results"
    and items: "response_items results = Some items"
    and valid: "list_all valid_item items"
  shows "length (fst (get_recent_tracks w)) = length items
       \<and> (\<forall>i<length items.
            map fst (fst (get_recent_tracks w) ! i) = track_data_keys
          \<and> (\<exists>s. played_at_string (items ! i) = Some s
               \<and> map_of (fst (get_recent_tracks w) ! i) ''played_at'' = Some (JStr s)
               \<and> map_of (fst (get_recent_tracks w) ! i) ''played_date'' = Some (JStr (take 10 s))
               \<and> prefix (take 10 s) s
               \<and> map_of (fst (get_recent_tracks w) ! i) ''played_hour'' = Some (JStr (take 2 (drop 11 s)))))"
proof -
  from valid have shaped: "list_all well_shaped_item items"
    by (simp add: list_all_iff valid_item_def)
  from get_recent_tracks_iterated [OF api response_items_dict_get [OF items] _ shaped]
  obtain new where new: "fst (get_recent_tracks w) = new"
    and len: "length new = length items"
    and each: "\<And>i. i < length items \<Longrightarrow>
        fst (track_data (w\<lparr>ticks := ticks w + i\<rparr>) (items ! i)) = Inr (new ! i)"
    by auto
  have "map fst (new ! i) = track_data_keys
      \<and> (\<exists>s. played_at_string (items ! i) = Some s
           \<and> map_of (new ! i) ''played_at'' = Some (JStr s)
           \<and> map_of (new ! i) ''played_date'' = Some (JStr (take 10 s))
           \<and> prefix (take 10 s) s
           \<and> map_of (new ! i) ''played_hour'' = Some (JStr (take 2 (drop 11 s))))"
    if i: "i < length items" for i
  proof -
    from valid i have "valid_item (items ! i)"
      by (simp add: list_all_length)
    then obtain s where s: "played_at_string (items ! i) = Some s"
      by (auto simp: valid_item_def)
    from track_data_record [OF each [OF i]] s show ?thesis
      by (simp add: take_is_prefix)
  qed
  with new len show ?thesis by simp
qed

section \<open>The concrete inputs\<close>

lemma cache_paths_differ: "tmp_cache_path \<noteq> packaged_cache_path"
  by (simp add: tmp_cache_path_def packaged_cache_path_def)

lemma example_world_cold:
  "\<not> path_exists example_world tmp_cache_path"
  "path_exists example_world packaged_cache_path"
  "fs example_world packaged_cache_path = Some ''seed-token''"
  by (simp_all add: example_world_def path_exists_def cache_paths_differ)

lemma warm_world_warm: "path_exists warm_world tmp_cache_path"
  by (simp add: warm_world_def path_exists_def)

lemma well_shaped_example_item: "well_shaped_item (example_item a b)"
  by (simp add: example_item_def)

lemma played_at_example_item: "played_at_string (example_item a b) = Some b"
  by (simp add: example_item_def)

lemma valid_example_results: "valid_response example_results"
  by (simp add: valid_response_def example_results_def valid_item_def
      well_shaped_example_item played_at_example_item)

lemma response_items_example:
  "response_items example_results =
     Some [example_item ''t1'' ''2024-01-15T14:30:00.000Z'', example_item ''t2'' ''2024-01-15T14:26:10.000Z'']"
  by (simp add: example_results_def)

lemma reaches_fetch_example:
  assumes "environ w = environ example_world"
    and "ssm_get_parameters_by_path w = ssm_get_parameters_by_path example_world"
  shows "reaches_fetch w ''/spotify'' ''bucket''"
proof -
  have "get_config (cache_handoff w) = get_config example_world"
    by (rule get_config_environ) (simp add: cache_handoff_fields assms)
  then have c: "get_config (cache_handoff w) = Inr (''/spotify'', ''bucket'')"
    by (simp add: get_config_def example_world_def)
  have "ssm_get_parameters_by_path (cache_handoff w) ''/spotify'' = Inr example_parameters"
    by (simp add: cache_handoff_fields assms example_world_def)
  then have "\<not> isl (fst (get_secrets ''/spotify'' (cache_handoff w)))"
    by (simp add: get_secrets_def Let_def example_parameters_def required_secrets_def)
  with c show ?thesis by (simp add: reaches_fetch_def)
qed

lemma fetch_example:
  assumes "current_user_recently_played w 50 = Inr example_results"
  shows "length (fst (get_recent_tracks w)) = 2"
proof -
  let ?items = "[example_item ''t1'' ''2024-01-15T14:30:00.000Z'', example_item ''t2'' ''2024-01-15T14:26:10.000Z'']"
  have "dict_get example_results ''items'' (JList []) = Inr (JList ?items)"
    by (rule response_items_dict_get) (rule response_items_example)
  from get_recent_tracks_iterated [OF assms this, of ?items]
  show ?thesis by (auto simp: well_shaped_example_item)
qed

lemma handler_no_new_tracks:
  assumes "reaches_fetch w p b"
    and "fst (get_recent_tracks (before_fetch w p)) = []
         \<or> s3_put_error w b (jsonl_key (snd (get_recent_tracks (before_fetch w p)))) \<noteq> None
         \<or> s3_put_error w b (json_key (snd (get_recent_tracks (before_fetch w p)))) \<noteq> None"
  shows "fst (lambda_handler w) = Inr no_new_tracks_response"
proof (cases "fst (get_recent_tracks (before_fetch w p)) = []")
  case True
  then show ?thesis
    by (simp add: handler_after_fetch [OF assms(1)] process_tracks_empty)
next
  case False
  with assms(2) show ?thesis
    by (auto simp: handler_after_fetch [OF assms(1)] process_tracks_writes(1) [OF False refl]
        before_fetch_fields)
qed

section \<open>Dropping duplicates\<close>

lemma drop_seen_subset: "set (drop_seen key seen rs) \<subseteq> set rs"
  by (induction rs arbitrary: seen) auto

lemma drop_seen_keys: "key ` set (drop_seen key seen rs) = key ` set rs - set seen"
  by (induction rs arbitrary: seen) auto

lemma drop_seen_distinct_keys: "distinct (map key (drop_seen key seen rs))"
  by (induction rs arbitrary: seen) (auto simp: drop_seen_keys)

lemma count_distinct_key:
  "distinct (map key xs) \<Longrightarrow>
   length (filter (\<lambda>r. key r = k) xs) = (if k \<in> key ` set xs then 1 else 0)"
  by (induction xs) (auto simp: image_iff)

lemma drop_seen_count:
  "length (filter (\<lambda>r. key r = k) (drop_seen key seen rs))
     = (if k \<in> key ` set rs \<and> k \<notin> set seen then 1 else 0)"
  using count_distinct_key [OF drop_seen_distinct_keys, of key k seen rs]
  by (simp add: drop_seen_keys)

lemma drop_seen_distinct:
  "distinct (map key rs) \<Longrightarrow> key ` set rs \<inter> set seen = {} \<Longrightarrow> drop_seen key seen rs = rs"
  by (induction rs arbitrary: seen) auto

lemma key_of_played_at_map:
  "key_of (columns df) [DEDUP_COLUMN] = (\<lambda>r. [played_at_of df r])"
  by (rule ext) (simp add: key_of_def played_at_of_def)

lemma deduplicated_df_rows:
  assumes "DEDUP_COLUMN \<in> set (columns df)"
  shows "deduplicated_df df = Inr (df\<lparr>rows := drop_seen (\<lambda>r. [played_at_of df r]) [] (rows df)\<rparr>)"
  using assms by (simp add: deduplicated_df_def dropDuplicates_def key_of_played_at_map)

lemma deduplicated_df_missing_column:
  assumes "DEDUP_COLUMN \<notin> set (columns df)"
  shows "deduplicated_df df = Inl (AnalysisException DEDUP_COLUMN)"
  using assms by (simp add: deduplicated_df_def dropDuplicates_def)

lemma eval_entries_raises_iff: "isl (eval_entries item track_data_entries) = (\<not> well_shaped_item item)"
proof (cases "eval_entries item track_data_entries")
  case (Inl e)
  then show ?thesis using eval_entries_well_shaped [of item] by auto
next
  case (Inr d)
  then show ?thesis using eval_entries_InrD [of item d] by simp
qed

lemma responses_differ: "no_new_tracks_response \<noteq> saved_response"
  by (simp add: no_new_tracks_response_def saved_response_def json_dumps_def
      encode_basestring_def escape_char_def)

lemma json_refused_keys:
  "s3_put_error json_refused_world b (jsonl_key w1) = None"
  "s3_put_error json_refused_world b (json_key w1) = Some (ExternalError ''AccessDenied'')"
  by (simp_all add: json_refused_world_def jsonl_key_def json_key_def jsonl_file_name_def
      json_file_name_def)

lemma jsonl_refused_keys:
  "s3_put_error jsonl_refused_world b (jsonl_key w1) = Some (ExternalError ''AccessDenied'')"
  "s3_put_error jsonl_refused_world b (json_key w1) = None"
  by (simp_all add: jsonl_refused_world_def jsonl_key_def json_key_def jsonl_file_name_def
      json_file_name_def)

lemma fetch_example_nonempty:
  assumes "current_user_recently_played w = current_user_recently_played example_world"
  shows "fst (get_recent_tracks (before_fetch w p)) \<noteq> []"
proof -
  have "current_user_recently_played (before_fetch w p) 50 = Inr example_results"
    by (simp add: before_fetch_fields assms example_world_def)
  then have "length (fst (get_recent_tracks (before_fetch w p))) = 2"
    by (rule fetch_example)
  then show ?thesis by auto
qed

section \<open>The serialized bodies\<close>

lemma of_char_newline: "(of_char c = (10 :: nat)) = (c = CHR 0x0A)"
proof -
  have "(of_char c = (10 :: nat)) = (of_char c = (of_char (CHR 0x0A) :: nat))"
    by simp
  also have "\<dots> = (c = CHR 0x0A)"
    by (simp only: of_char_eq_iff)
  finally show ?thesis .
qed

lemma newline_digit_char: "d < 10 \<Longrightarrow> CHR 0x0A \<noteq> digit_char d"
proof
  assume d: "d < 10" and "CHR 0x0A = digit_char d"
  then have "(of_char (CHR 0x0A) :: nat) = of_char (digit_char d)"
    by simp
  with d show False
    by (simp add: digit_char_def)
qed

lemma newline_hex_char: "d < 16 \<Longrightarrow> CHR 0x0A \<noteq> hex_char d"
proof
  assume d: "d < 16" and "CHR 0x0A = hex_char d"
  then have "(of_char (CHR 0x0A) :: nat) = of_char (hex_char d)"
    by simp
  with d show False
    by (simp add: hex_char_def split: if_splits)
qed

lemma newline_escape_char: "CHR 0x0A \<notin> set (escape_char c)"
proof (cases "c = CHR 0x0A")
  case True
  then show ?thesis by (simp add: escape_char_def)
next
  case False
  then have "of_char c \<noteq> (10 :: nat)"
    by (simp add: of_char_newline)
  moreover have "CHR 0x0A \<noteq> hex_char ((of_char c :: nat) mod 16)"
    by (rule newline_hex_char) simp
  moreover have "CHR 0x0A \<noteq> hex_char ((of_char c :: nat) div 16)"
    by (rule newline_hex_char) (simp add: less_mult_imp_div_less)
  ultimately show ?thesis
    using False by (auto simp: escape_char_def Let_def)
qed

lemma set_join: "set (join sep ps) \<subseteq> set sep \<union> \<Union> (set ` set ps)"
  by (induction sep ps rule: join.induct) auto

lemma newline_decimal: "CHR 0x0A \<notin> set (decimal n)"
proof (induction n rule: decimal.induct)
  case (1 n)
  show ?case
  proof (cases "n < 10")
    case True
    then show ?thesis by (subst decimal.simps) (simp add: newline_digit_char)
  next
    case False
    with 1 show ?thesis
      by (subst decimal.simps) (simp add: newline_digit_char)
  qed
qed

lemma newline_encode_int: "CHR 0x0A \<notin> set (encode_int i)"
  by (simp add: encode_int_def newline_decimal)

lemma newline_encode_basestring: "CHR 0x0A \<notin> set (encode_basestring s)"
  by (simp add: encode_basestring_def newline_escape_char)

lemma newline_join:
  assumes "CHR 0x0A \<notin> set sep" and "\<forall>p\<in>set ps. CHR 0x0A \<notin> set p"
  shows "CHR 0x0A \<notin> set (join sep ps)"
  using assms set_join [of sep ps] by auto

text \<open>Without \<^verbatim>\<open>indent\<close> the encoder writes no line break.\<close>

lemma newline_encode:
  "indent = None \<Longrightarrow> CHR 0x0A \<notin> set (encode indent level v)"
  "indent = None \<Longrightarrow> \<forall>s\<in>set (encode_items indent level vs). CHR 0x0A \<notin> set s"
  "indent = None \<Longrightarrow> \<forall>s\<in>set (encode_members indent level kvs). CHR 0x0A \<notin> set s"
proof (induction indent level v and indent level vs and indent level kvs
    rule: encode_encode_items_encode_members.induct)
  case (6 indent level v vs)
  then have "CHR 0x0A \<notin> set (join (item_separator indent @ newline_indent indent (Suc level))
      (encode_items indent (Suc level) (v # vs)))"
    by (intro newline_join) (simp_all add: item_separator_def newline_indent_def)
  with 6 show ?case by (simp add: newline_indent_def)
next
  case (8 indent level kv kvs)
  then have "CHR 0x0A \<notin> set (join (item_separator indent @ newline_indent indent (Suc level))
      (encode_members indent (Suc level) (kv # kvs)))"
    by (intro newline_join) (simp_all add: item_separator_def newline_indent_def)
  with 8 show ?case by (simp add: newline_indent_def)
qed (simp_all add: newline_encode_int newline_encode_basestring)

lemma newline_json_dumps: "CHR 0x0A \<notin> set (json_dumps x)"
  by (simp add: json_dumps_def newline_encode)

lemma encode_items_map: "encode_items indent level vs = map (encode indent level) vs"
  by (induction vs) simp_all

lemma str_split_no_sep: "sep \<notin> set p \<Longrightarrow> str_split sep p = [p]"
  by (induction p) auto

lemma str_split_append:
  "sep \<notin> set p \<Longrightarrow> str_split sep (p @ sep # rest) = p # str_split sep rest"
  by (induction p) auto

lemma str_split_join:
  "ps \<noteq> [] \<Longrightarrow> \<forall>p\<in>set ps. sep \<notin> set p \<Longrightarrow> str_split sep (join [sep] ps) = ps"
  by (induction "[sep]" ps rule: join.induct) (simp_all add: str_split_no_sep str_split_append)

lemma jsonl_lines:
  assumes "tracks \<noteq> []"
  shows "str_split (CHR 0x0A) (jsonl_content tracks) = map (\<lambda>track. json_dumps (JObj track)) tracks"
  unfolding jsonl_content_def
  by (rule str_split_join) (simp_all add: assms newline_json_dumps)

lemma json_content_array:
  assumes "tracks \<noteq> []"
  shows "json_content tracks =
     ''['' @ [CHR 0x0A] @ ''  ''
       @ join ('','' @ [CHR 0x0A] @ ''  '') (map (\<lambda>track. encode (Some 2) 1 (JObj track)) tracks)
       @ [CHR 0x0A] @ '']''"
proof -
  from assms obtain t ts where "tracks = t # ts" by (cases tracks) auto
  then show ?thesis
    by (simp add: json_content_def json_dumps_indent2_def encode_items_map newline_indent_def
        item_separator_def comp_def numeral_2_eq_2)
qed

lemma iterate_well_shaped:
  assumes "iterate v = Inr items" and "items \<noteq> []" and "list_all well_shaped_item items"
  shows "v = JList items"
  using assms by (cases v) (auto simp: neq_Nil_conv)

lemma dict_get_items:
  assumes "dict_get results ''items'' (JList []) = Inr (JList items)" and "items \<noteq> []"
  shows "response_items results = Some items"
  using assms by (cases results) (auto split: option.splits)

lemma eval_entries_example_item:
  "eval_entries (example_item a b) track_data_entries =
     Inr [(''track_id'', JStr a), (''name'', JStr ''Song''), (''artist'', JStr ''Artist''),
          (''played_at'', JStr b), (''album'', JStr ''Album''), (''duration_ms'', JInt 215000),
          (''popularity'', JInt 64), (''explicit'', JBool False), (''artist_id'', JStr ''ar1''),
          (''album_id'', JStr ''al1''), (''release_date'', JStr ''2020-05-01''),
          (''total_tracks'', JInt 12), (''played_date'', JStr (take 10 b)),
          (''played_hour'', JStr (take 2 (drop 11 b)))]"
  by (simp add: example_item_def track_data_entries_def)

lemma map_two: "length xs = 2 \<Longrightarrow> map f xs = [f (xs ! 0), f (xs ! 1)]"
proof -
  assume "length xs = 2"
  then obtain a b where "xs = [a, b]"
    by (auto simp: length_Suc_conv numeral_2_eq_2)
  then show ?thesis by simp
qed

section \<open>The properties\<close>

subsection \<open>The records of a fetch\<close>

text \<open>
  C1, as the code has it. For every response of the API whose \<^verbatim>\<open>items\<close> is a list of
  \<open>N\<close> valid items, \<^verbatim>\<open>get_recent_tracks\<close> returns \<open>N\<close> records. Each record has the
  fifteen keys of the dictionary display, in its order; its \<^verbatim>\<open>played_at\<close> is that of
  the item, its \<^verbatim>\<open>played_date\<close> is the first ten characters of \<^verbatim>\<open>played_at\<close>, a prefix
  of it, and its \<^verbatim>\<open>played_hour\<close> is the slice \<^verbatim>\<open>played_at[11:13]\<close>, the two characters
  after the first eleven.
\<close>

theorem valid_response_records:
  assumes "current_user_recently_played w 50 = Inr results"
    and "valid_response results"
    and "response_items results = Some items"
  shows "length (fst (get_recent_tracks w)) = length items
       \<and> (\<forall>i<length items.
            map fst (fst (get_recent_tracks w) ! i) = track_data_keys
          \<and> (\<exists>s. played_at_string (items ! i) = Some s
               \<and> map_of (fst (get_recent_tracks w) ! i) ''played_at'' = Some (JStr s)
               \<and> map_of (fst (get_recent_tracks w) ! i) ''played_date'' = Some (JStr (take 10 s))
               \<and> prefix (take 10 s) s
               \<and> map_of (fst (get_recent_tracks w) ! i) ''played_hour'' = Some (JStr (take 2 (drop 11 s)))))"
proof -
  from assms(2,3) have "list_all valid_item items"
    by (simp add: valid_response_def)
  with fetch_records [OF assms(1,3)] show ?thesis by blast
qed

theorem valid_response_records_witness:
  "current_user_recently_played example_world 50 = Inr example_results
   \<and> valid_response example_results
   \<and> length (fst (get_recent_tracks example_world)) = 2
   \<and> map fst (fst (get_recent_tracks example_world) ! 1) = track_data_keys
   \<and> map_of (fst (get_recent_tracks example_world) ! 1) ''played_at'' = Some (JStr ''2024-01-15T14:26:10.000Z'')
   \<and> map_of (fst (get_recent_tracks example_world) ! 1) ''played_date'' = Some (JStr ''2024-01-15'')
   \<and> map_of (fst (get_recent_tracks example_world) ! 1) ''played_hour'' = Some (JStr ''14'')"
proof -
  have api: "current_user_recently_played example_world 50 = Inr example_results"
    by (simp add: example_world_def)
  note t = valid_response_records [OF api valid_example_results response_items_example]
  from t have "length (fst (get_recent_tracks example_world)) = 2"
    by simp
  moreover from t have "map fst (fst (get_recent_tracks example_world) ! 1) = track_data_keys
     \<and> (\<exists>s. played_at_string (example_item ''t2'' ''2024-01-15T14:26:10.000Z'') = Some s
          \<and> map_of (fst (get_recent_tracks example_world) ! 1) ''played_at'' = Some (JStr s)
          \<and> map_of (fst (get_recent_tracks example_world) ! 1) ''played_date'' = Some (JStr (take 10 s))
          \<and> prefix (take 10 s) s
          \<and> map_of (fst (get_recent_tracks example_world) ! 1) ''played_hour'' = Some (JStr (take 2 (drop 11 s))))"
    by (auto dest!: spec [of _ 1])
  ultimately show ?thesis
    using api valid_example_results by (auto simp: played_at_example_item)
qed

text \<open>
  C1 as stated fails: \<^verbatim>\<open>played_hour\<close> is not a prefix of \<^verbatim>\<open>played_at\<close>. For a play at
  \<^verbatim>\<open>2024-01-15T14:30:00.000Z\<close> in a valid response, the record has the hour \<^verbatim>\<open>14\<close>,
  and \<^verbatim>\<open>played_at\<close> starts with \<^verbatim>\<open>20\<close>.
\<close>

theorem played_hour_not_prefix:
  "current_user_recently_played example_world 50 = Inr example_results
   \<and> valid_response example_results
   \<and> length (fst (get_recent_tracks example_world)) = 2
   \<and> map_of (fst (get_recent_tracks example_world) ! 0) ''played_at'' = Some (JStr ''2024-01-15T14:30:00.000Z'')
   \<and> map_of (fst (get_recent_tracks example_world) ! 0) ''played_hour'' = Some (JStr ''14'')
   \<and> \<not> prefix ''14'' ''2024-01-15T14:30:00.000Z''"
proof -
  have api: "current_user_recently_played example_world 50 = Inr example_results"
    by (simp add: example_world_def)
  have v: "list_all valid_item [example_item ''t1'' ''2024-01-15T14:30:00.000Z'', example_item ''t2'' ''2024-01-15T14:26:10.000Z'']"
    by (simp add: valid_item_def well_shaped_example_item played_at_example_item)
  note t = fetch_records [OF api response_items_example v]
  from t have "length (fst (get_recent_tracks example_world)) = 2"
    by simp
  moreover from t have "\<exists>s. played_at_string (example_item ''t1'' ''2024-01-15T14:30:00.000Z'') = Some s
          \<and> map_of (fst (get_recent_tracks example_world) ! 0) ''played_at'' = Some (JStr s)
          \<and> map_of (fst (get_recent_tracks example_world) ! 0) ''played_date'' = Some (JStr (take 10 s))
          \<and> prefix (take 10 s) s
          \<and> map_of (fst (get_recent_tracks example_world) ! 0) ''played_hour'' = Some (JStr (take 2 (drop 11 s)))"
    by (auto dest!: spec [of _ 0])
  ultimately show ?thesis
    using api valid_example_results by (auto simp: played_at_example_item)
qed

text \<open>
  C5, as the code has it. The dictionary display raises for an item exactly when the
  item is not well shaped: a key on a path is missing, or a value on it is not of the
  kind its subscript needs. It raises nothing for a \<^verbatim>\<open>played_at\<close> that is a string but
  not a timestamp. No item is treated alone: when one item of the response is not well
  shaped, the exception leaves the loop and is caught by the \<^verbatim>\<open>except Exception\<close> of
  \<^verbatim>\<open>get_recent_tracks\<close>, which returns the empty list, the records of the items before
  it included. The handler then raises nothing, writes nothing, and returns the response
  "No se procesaron nuevas canciones.".
\<close>

theorem malformed_item_empties_batch:
  assumes "reaches_fetch w parameter_path s3_bucket"
    and "current_user_recently_played w 50 = Inr results"
    and "response_items results = Some items"
    and "item \<in> set items"
    and "\<not> well_shaped_item item"
  shows "(\<forall>x. isl (eval_entries x track_data_entries) = (\<not> well_shaped_item x))
       \<and> fst (get_recent_tracks (before_fetch w parameter_path)) = []
       \<and> fst (lambda_handler w) = Inr no_new_tracks_response
       \<and> filter is_s3_put (calls (snd (lambda_handler w))) = filter is_s3_put (calls w)"
proof -
  let ?w1 = "before_fetch w parameter_path"
  have api: "current_user_recently_played ?w1 50 = Inr results"
    by (simp add: before_fetch_fields assms(2))
  from assms(4,5) have bad: "\<not> list_all well_shaped_item items"
    by (auto simp: list_all_iff)
  have empty: "fst (get_recent_tracks ?w1) = []"
    by (rule get_recent_tracks_bad_item [OF api response_items_dict_get [OF assms(3)] _ bad]) simp
  then have "lambda_handler w = (Inr no_new_tracks_response, snd (get_recent_tracks ?w1))"
    by (simp add: handler_after_fetch [OF assms(1)] process_tracks_empty)
  then show ?thesis
    using empty
    by (simp add: eval_entries_raises_iff get_recent_tracks_snd before_fetch_fields cache_handoff_calls)
qed

theorem malformed_item_empties_batch_witness:
  "reaches_fetch broken_item_world ''/spotify'' ''bucket''
   \<and> current_user_recently_played broken_item_world 50 = Inr broken_results
   \<and> \<not> well_shaped_item (JObj [(''played_at'', JStr ''2024-01-15T14:26:10.000Z'')])
   \<and> isl (eval_entries (JObj [(''played_at'', JStr ''2024-01-15T14:26:10.000Z'')]) track_data_entries)
   \<and> fst (get_recent_tracks (before_fetch broken_item_world ''/spotify'')) = []
   \<and> fst (lambda_handler broken_item_world) = Inr no_new_tracks_response
   \<and> filter is_s3_put (calls (snd (lambda_handler broken_item_world))) = []"
proof -
  let ?bad = "JObj [(''played_at'', JStr ''2024-01-15T14:26:10.000Z'')]"
  have r: "reaches_fetch broken_item_world ''/spotify'' ''bucket''"
    by (rule reaches_fetch_example) (simp_all add: broken_item_world_def)
  have api: "current_user_recently_played broken_item_world 50 = Inr broken_results"
    by (simp add: broken_item_world_def)
  have items: "response_items broken_results = Some [example_item ''t1'' ''2024-01-15T14:30:00.000Z'', ?bad]"
    by (simp add: broken_results_def)
  have bad: "\<not> well_shaped_item ?bad"
    by simp
  have c: "calls broken_item_world = []"
    by (simp add: broken_item_world_def example_world_def)
  from malformed_item_empties_batch [OF r api items _ bad] r api bad show ?thesis
    by (simp add: c)
qed

text \<open>
  C5 as stated fails: the error of a malformed item does not leave the Collector
  unhandled. With a valid item followed by an item without \<^verbatim>\<open>track\<close>, the display
  raises for the second item, \<^verbatim>\<open>get_recent_tracks\<close> returns the empty list and the
  handler returns a response. And a \<^verbatim>\<open>played_at\<close> that is no timestamp ("yesterday")
  raises nothing at all.
\<close>

theorem malformed_item_is_handled:
  "current_user_recently_played broken_item_world 50 = Inr broken_results
   \<and> isl (eval_entries (JObj [(''played_at'', JStr ''2024-01-15T14:26:10.000Z'')]) track_data_entries)
   \<and> fst (get_recent_tracks broken_item_world) = []
   \<and> fst (lambda_handler broken_item_world) = Inr no_new_tracks_response
   \<and> \<not> isl (fst (lambda_handler broken_item_world))
   \<and> \<not> isl (eval_entries (example_item ''t1'' ''yesterday'') track_data_entries)"
proof -
  let ?bad = "JObj [(''played_at'', JStr ''2024-01-15T14:26:10.000Z'')]"
  let ?items = "[example_item ''t1'' ''2024-01-15T14:30:00.000Z'', ?bad]"
  have r: "reaches_fetch broken_item_world ''/spotify'' ''bucket''"
    by (rule reaches_fetch_example) (simp_all add: broken_item_world_def)
  have api: "current_user_recently_played broken_item_world 50 = Inr broken_results"
    by (simp add: broken_item_world_def)
  have api': "current_user_recently_played (before_fetch broken_item_world ''/spotify'') 50 = Inr broken_results"
    by (simp add: before_fetch_fields api)
  have get: "dict_get broken_results ''items'' (JList []) = Inr (JList ?items)"
    by (simp add: broken_results_def)
  have bad: "\<not> list_all well_shaped_item ?items"
    by simp
  have e1: "fst (get_recent_tracks broken_item_world) = []"
    by (rule get_recent_tracks_bad_item [OF api get _ bad]) simp
  have e2: "fst (get_recent_tracks (before_fetch broken_item_world ''/spotify'')) = []"
    by (rule get_recent_tracks_bad_item [OF api' get _ bad]) simp
  have h: "fst (lambda_handler broken_item_world) = Inr no_new_tracks_response"
    using handler_no_new_tracks [OF r] e2 by blast
  show ?thesis
    using api e1 h by (simp add: eval_entries_raises_iff well_shaped_example_item)
qed

text \<open>
  C10. Whenever \<^verbatim>\<open>get_recent_tracks\<close> returns records, the API answered with a
  dictionary whose \<^verbatim>\<open>items\<close> is a list, there are as many records as items, and the
  \<open>i\<close>-th record is what the dictionary display gives for the \<open>i\<close>-th item at the
  \<open>i\<close>-th reading of the clock. The body of the JSONL object has one line for each
  record, in this order: split at the line breaks, it is the list of the serialized
  records. The body of the JSON object is the bracketed list of the records, each
  serialized at one level of indentation, in this order, separated by a comma and a
  line break.
\<close>

theorem records_keep_order_of_items:
  assumes "tracks = fst (get_recent_tracks w)"
    and "tracks \<noteq> []"
  shows "\<exists>results items.
           current_user_recently_played w 50 = Inr results
         \<and> response_items results = Some items
         \<and> length tracks = length items
         \<and> (\<forall>i<length items.
               fst (track_data (w\<lparr>ticks := ticks w + i\<rparr>) (items ! i)) = Inr (tracks ! i))
         \<and> str_split (CHR 0x0A) (jsonl_content tracks)
             = map (\<lambda>track. json_dumps (JObj track)) tracks
         \<and> json_content tracks =
             ''['' @ [CHR 0x0A] @ ''  ''
               @ join ('','' @ [CHR 0x0A] @ ''  '')
                   (map (\<lambda>track. encode (Some 2) 1 (JObj track)) tracks)
               @ [CHR 0x0A] @ '']''"
proof -
  from assms have "fst (get_recent_tracks w) \<noteq> []" by simp
  then obtain results v items where api: "current_user_recently_played w 50 = Inr results"
    and get: "dict_get results ''items'' (JList []) = Inr v"
    and it: "iterate v = Inr items"
    and shaped: "list_all well_shaped_item items"
    using get_recent_tracks_nonempty by blast
  from get_recent_tracks_iterated [OF api get it shaped]
  have len: "length tracks = length items"
    and each: "\<forall>i<length items.
        fst (track_data (w\<lparr>ticks := ticks w + i\<rparr>) (items ! i)) = Inr (tracks ! i)"
    by (auto simp: assms(1))
  from len assms(2) have ne: "items \<noteq> []" by auto
  from it ne shaped have "v = JList items" by (rule iterate_well_shaped)
  with get ne have "response_items results = Some items"
    by (simp add: dict_get_items)
  with api len each jsonl_lines [OF assms(2)] json_content_array [OF assms(2)]
  show ?thesis by blast
qed

theorem records_keep_order_of_items_witness:
  "fst (get_recent_tracks example_world) \<noteq> []
   \<and> length (fst (get_recent_tracks example_world)) = 2
   \<and> map_of (fst (get_recent_tracks example_world) ! 0) ''track_id'' = Some (JStr ''t1'')
   \<and> map_of (fst (get_recent_tracks example_world) ! 1) ''track_id'' = Some (JStr ''t2'')
   \<and> str_split (CHR 0x0A) (jsonl_content (fst (get_recent_tracks example_world)))
       = [json_dumps (JObj (fst (get_recent_tracks example_world) ! 0)),
          json_dumps (JObj (fst (get_recent_tracks example_world) ! 1))]"
proof -
  let ?T = "fst (get_recent_tracks example_world)"
  let ?items = "[example_item ''t1'' ''2024-01-15T14:30:00.000Z'', example_item ''t2'' ''2024-01-15T14:26:10.000Z'']"
  have api: "current_user_recently_played example_world 50 = Inr example_results"
    by (simp add: example_world_def)
  have "length ?T = 2"
    using api by (rule fetch_example)
  then have ne: "?T \<noteq> []" and l: "length ?T = 2" by auto
  from records_keep_order_of_items [OF refl ne]
  obtain results items where r: "current_user_recently_played example_world 50 = Inr results"
    and i: "response_items results = Some items"
    and each: "\<And>i. i < length items \<Longrightarrow>
        fst (track_data (example_world\<lparr>ticks := ticks example_world + i\<rparr>) (items ! i)) = Inr (?T ! i)"
    and lines: "str_split (CHR 0x0A) (jsonl_content ?T) = map (\<lambda>track. json_dumps (JObj track)) ?T"
    by blast
  from r api have "results = example_results" by simp
  with i have items: "items = ?items" by (simp add: response_items_example)
  have "fst (track_data (example_world\<lparr>ticks := ticks example_world + 0\<rparr>) (?items ! 0)) = Inr (?T ! 0)"
    using each [of 0] items by simp
  from this [symmetric] have t0: "map_of (?T ! 0) ''track_id'' = Some (JStr ''t1'')"
    by (simp add: track_data_ok [OF eval_entries_example_item])
  have "fst (track_data (example_world\<lparr>ticks := ticks example_world + 1\<rparr>) (?items ! 1)) = Inr (?T ! 1)"
    using each [of 1] items by simp
  from this [symmetric] have t1: "map_of (?T ! 1) ''track_id'' = Some (JStr ''t2'')"
    by (simp add: track_data_ok [OF eval_entries_example_item])
  have "map (\<lambda>track. json_dumps (JObj track)) ?T
      = [json_dumps (JObj (?T ! 0)), json_dumps (JObj (?T ! 1))]"
    using l by (rule map_two)
  with lines have "str_split (CHR 0x0A) (jsonl_content ?T)
      = [json_dumps (JObj (?T ! 0)), json_dumps (JObj (?T ! 1))]"
    by (rule trans)
  with ne l t0 t1 show ?thesis by (intro conjI)
qed

subsection \<open>The credential cache\<close>

text \<open>
  C3. The handoff of the credential cache (lines 28 to 36). When \<^verbatim>\<open>/tmp\<close> has no cache
  and the package has one, the handoff copies it: the writable cache then has the
  content of the packaged one, no other file changes, and exactly one copy is made.
  When \<^verbatim>\<open>/tmp\<close> has a cache the handoff changes nothing at all, so no copy is made and
  the content stays. The rest of the handler makes no copy, and it leaves a cache in
  \<^verbatim>\<open>/tmp\<close> whenever one of the two existed at the start (the authentication library
  only rewrites it), so that the handoff of a later start in the same environment is
  the identity: the first write wins.
\<close>

theorem cache_handoff_first_write_wins:
  "(\<not> path_exists w tmp_cache_path \<and> path_exists w packaged_cache_path \<longrightarrow>
      fs (cache_handoff w) tmp_cache_path = fs w packaged_cache_path
    \<and> (\<forall>p. p \<noteq> tmp_cache_path \<longrightarrow> fs (cache_handoff w) p = fs w p)
    \<and> calls (cache_handoff w) = calls w @ [FileCopy packaged_cache_path tmp_cache_path])
 \<and> (path_exists w tmp_cache_path \<longrightarrow> cache_handoff w = w)
 \<and> filter is_file_copy (calls (snd (lambda_handler w))) = filter is_file_copy (calls (cache_handoff w))
 \<and> (path_exists w tmp_cache_path \<or> path_exists w packaged_cache_path \<longrightarrow>
      path_exists (snd (lambda_handler w)) tmp_cache_path
    \<and> cache_handoff (snd (lambda_handler w)) = snd (lambda_handler w))"
proof -
  have a: "\<not> path_exists w tmp_cache_path \<and> path_exists w packaged_cache_path \<longrightarrow>
      fs (cache_handoff w) tmp_cache_path = fs w packaged_cache_path
    \<and> (\<forall>p. p \<noteq> tmp_cache_path \<longrightarrow> fs (cache_handoff w) p = fs w p)
    \<and> calls (cache_handoff w) = calls w @ [FileCopy packaged_cache_path tmp_cache_path]"
    by (simp add: cache_handoff_def shutil_copy_def)
  have b: "path_exists w tmp_cache_path \<longrightarrow> cache_handoff w = w"
    by (simp add: cache_handoff_def)
  have c: "filter is_file_copy (calls (snd (lambda_handler w))) = filter is_file_copy (calls (cache_handoff w))"
  proof (cases w rule: handler_cases)
    case (1 e)
    then show ?thesis by simp
  next
    case (2 p b e)
    then show ?thesis by (simp add: before_fetch_fields)
  next
    case (3 p b)
    then show ?thesis
      by (simp add: handler_after_fetch process_tracks_no_copy before_fetch_fields)
  qed
  have h: "path_exists (cache_handoff w) tmp_cache_path"
    if "path_exists w tmp_cache_path \<or> path_exists w packaged_cache_path"
    using that by (auto simp: cache_handoff_def shutil_copy_def path_exists_def)
  have d: "path_exists (snd (lambda_handler w)) tmp_cache_path"
    if t: "path_exists w tmp_cache_path \<or> path_exists w packaged_cache_path"
  proof (cases w rule: handler_cases)
    case (1 e)
    then show ?thesis using h [OF t] by simp
  next
    case (2 p b e)
    then show ?thesis using h [OF t] by (simp add: path_exists_def before_fetch_fields)
  next
    case (3 p b)
    have "path_exists (before_fetch w p) tmp_cache_path"
      using h [OF t] by (simp add: path_exists_def before_fetch_fields)
    then show ?thesis
      by (simp add: handler_after_fetch [OF 3] process_tracks_path_exists)
  qed
  have e: "cache_handoff (snd (lambda_handler w)) = snd (lambda_handler w)"
    if t: "path_exists w tmp_cache_path \<or> path_exists w packaged_cache_path"
    using d [OF t] by (simp add: cache_handoff_def)
  from a b c d e show ?thesis by blast
qed

theorem cache_handoff_first_write_wins_witness:
  "\<not> path_exists example_world tmp_cache_path
   \<and> path_exists example_world packaged_cache_path
   \<and> fs (cache_handoff example_world) tmp_cache_path = Some ''seed-token''
   \<and> calls (cache_handoff example_world) = [FileCopy packaged_cache_path tmp_cache_path]
   \<and> cache_handoff (snd (lambda_handler example_world)) = snd (lambda_handler example_world)
   \<and> path_exists warm_world tmp_cache_path
   \<and> cache_handoff warm_world = warm_world"
proof -
  note cold = cache_handoff_first_write_wins [of example_world]
  note warm = cache_handoff_first_write_wins [of warm_world]
  have c: "calls example_world = []" by (simp add: example_world_def)
  from cold example_world_cold
  have "fs (cache_handoff example_world) tmp_cache_path = Some ''seed-token''"
    and "calls (cache_handoff example_world) = [FileCopy packaged_cache_path tmp_cache_path]"
    and "cache_handoff (snd (lambda_handler example_world)) = snd (lambda_handler example_world)"
    by (simp_all add: c)
  moreover from warm warm_world_warm have "cache_handoff warm_world = warm_world"
    by blast
  ultimately show ?thesis
    using example_world_cold warm_world_warm by simp
qed

subsection \<open>Configuration\<close>

text \<open>
  C6. When \<^verbatim>\<open>PARAMETER_PATH\<close> or \<^verbatim>\<open>S3_BUCKET\<close> is not set, the handler raises the
  \<^verbatim>\<open>KeyError\<close> of the missing variable, and the world it leaves is the one the cache
  handoff left: no request to the parameter store, none to the streaming API, no
  \<^verbatim>\<open>put_object\<close>, and the objects in storage are those of the start.
\<close>

theorem missing_config_aborts:
  assumes "environ w ''PARAMETER_PATH'' = None \<or> environ w ''S3_BUCKET'' = None"
  shows "(\<exists>k. fst (lambda_handler w) = Inl (KeyError k))
       \<and> snd (lambda_handler w) = cache_handoff w
       \<and> filter is_network_call (calls (snd (lambda_handler w))) = filter is_network_call (calls w)
       \<and> s3_objects (snd (lambda_handler w)) = s3_objects w"
proof -
  have "get_config (cache_handoff w) = get_config w"
    by (rule get_config_environ) (simp add: cache_handoff_fields)
  moreover from assms have "\<exists>k. get_config w = Inl (KeyError k)"
    by (cases "environ w ''PARAMETER_PATH''") (auto simp: get_config_def)
  ultimately obtain k where "get_config (cache_handoff w) = Inl (KeyError k)"
    by auto
  then have "lambda_handler w = (Inl (KeyError k), cache_handoff w)"
    by (rule lambda_handler_config_error)
  then show ?thesis
    by (simp add: cache_handoff_fields cache_handoff_calls)
qed

theorem missing_config_aborts_witness:
  "environ no_bucket_world ''S3_BUCKET'' = None
   \<and> (\<exists>k. fst (lambda_handler no_bucket_world) = Inl (KeyError k))
   \<and> filter is_network_call (calls (snd (lambda_handler no_bucket_world))) = []
   \<and> s3_objects (snd (lambda_handler no_bucket_world)) = Map.empty"
proof -
  have h: "environ no_bucket_world ''S3_BUCKET'' = None"
    by (simp add: no_bucket_world_def)
  then have "environ no_bucket_world ''PARAMETER_PATH'' = None \<or> environ no_bucket_world ''S3_BUCKET'' = None"
    by simp
  from missing_config_aborts [OF this]
  have "\<exists>k. fst (lambda_handler no_bucket_world) = Inl (KeyError k)"
    and "filter is_network_call (calls (snd (lambda_handler no_bucket_world)))
         = filter is_network_call (calls no_bucket_world)"
    and "s3_objects (snd (lambda_handler no_bucket_world)) = s3_objects no_bucket_world"
    by blast+
  moreover have "calls no_bucket_world = []" "s3_objects no_bucket_world = Map.empty"
    by (simp_all add: no_bucket_world_def example_world_def)
  ultimately show ?thesis
    using h by simp
qed

subsection \<open>The two writes\<close>

text \<open>
  C4, as the code has it. When the fetch gave records and exactly one of the two
  \<^verbatim>\<open>put_object\<close> calls succeeds, the handler does not return "Datos guardados
  correctamente en S3.": it returns, with status 200 and without raising, the response
  "No se procesaron nuevas canciones.", the one of an empty fetch. The object of the
  write that succeeded is in storage afterwards, with the content written.
\<close>

theorem partial_write_response:
  assumes "reaches_fetch w parameter_path s3_bucket"
    and "w1 = snd (get_recent_tracks (before_fetch w parameter_path))"
    and "tracks = fst (get_recent_tracks (before_fetch w parameter_path))"
    and "tracks \<noteq> []"
    and "(s3_put_error w s3_bucket (jsonl_key w1) = None) \<noteq> (s3_put_error w s3_bucket (json_key w1) = None)"
  shows "fst (lambda_handler w) = Inr no_new_tracks_response
       \<and> no_new_tracks_response \<noteq> saved_response
       \<and> statusCode no_new_tracks_response = 200
       \<and> (s3_put_error w s3_bucket (jsonl_key w1) = None \<longrightarrow>
            s3_objects (snd (lambda_handler w)) (s3_bucket, jsonl_key w1) = Some (jsonl_content tracks))
       \<and> (s3_put_error w s3_bucket (json_key w1) = None \<longrightarrow>
            s3_objects (snd (lambda_handler w)) (s3_bucket, json_key w1) = Some (json_content tracks))"
proof -
  let ?w0 = "before_fetch w parameter_path"
  from assms(3,4) have ne: "fst (get_recent_tracks ?w0) \<noteq> []" by simp
  note pw = process_tracks_writes [OF ne assms(2), of s3_bucket]
  have e: "s3_put_error ?w0 = s3_put_error w" "s3_objects ?w0 = s3_objects w"
    by (simp_all add: before_fetch_fields)
  have h: "lambda_handler w = (Inr (fst (process_tracks s3_bucket ?w0)), snd (process_tracks s3_bucket ?w0))"
    by (rule handler_after_fetch [OF assms(1)])
  have "fst (lambda_handler w) = Inr no_new_tracks_response"
    using assms(5) by (auto simp: h pw(1) e)
  moreover have "s3_objects (snd (lambda_handler w)) (s3_bucket, jsonl_key w1) = Some (jsonl_content tracks)"
    if "s3_put_error w s3_bucket (jsonl_key w1) = None"
    using that assms(5) by (auto simp: h pw(3) e assms(3))
  moreover have "s3_objects (snd (lambda_handler w)) (s3_bucket, json_key w1) = Some (json_content tracks)"
    if "s3_put_error w s3_bucket (json_key w1) = None"
    using that assms(5) by (auto simp: h pw(3) e assms(3))
  ultimately show ?thesis
    using responses_differ by (simp add: no_new_tracks_response_def)
qed

theorem partial_write_response_witness:
  "reaches_fetch json_refused_world ''/spotify'' ''bucket''
   \<and> fst (get_recent_tracks (before_fetch json_refused_world ''/spotify'')) \<noteq> []
   \<and> s3_put_error json_refused_world ''bucket''
        (jsonl_key (snd (get_recent_tracks (before_fetch json_refused_world ''/spotify'')))) = None
   \<and> s3_put_error json_refused_world ''bucket''
        (json_key (snd (get_recent_tracks (before_fetch json_refused_world ''/spotify'')))) \<noteq> None
   \<and> fst (lambda_handler json_refused_world) = Inr no_new_tracks_response
   \<and> s3_objects (snd (lambda_handler json_refused_world))
        (''bucket'', jsonl_key (snd (get_recent_tracks (before_fetch json_refused_world ''/spotify''))))
      = Some (jsonl_content (fst (get_recent_tracks (before_fetch json_refused_world ''/spotify''))))
   \<and> reaches_fetch jsonl_refused_world ''/spotify'' ''bucket''
   \<and> fst (get_recent_tracks (before_fetch jsonl_refused_world ''/spotify'')) \<noteq> []
   \<and> s3_put_error jsonl_refused_world ''bucket''
        (jsonl_key (snd (get_recent_tracks (before_fetch jsonl_refused_world ''/spotify'')))) \<noteq> None
   \<and> s3_put_error jsonl_refused_world ''bucket''
        (json_key (snd (get_recent_tracks (before_fetch jsonl_refused_world ''/spotify'')))) = None
   \<and> fst (lambda_handler jsonl_refused_world) = Inr no_new_tracks_response
   \<and> s3_objects (snd (lambda_handler jsonl_refused_world))
        (''bucket'', json_key (snd (get_recent_tracks (before_fetch jsonl_refused_world ''/spotify''))))
      = Some (json_content (fst (get_recent_tracks (before_fetch jsonl_refused_world ''/spotify''))))"
proof -
  have r1: "reaches_fetch json_refused_world ''/spotify'' ''bucket''"
    by (rule reaches_fetch_example) (simp_all add: json_refused_world_def)
  have n1: "fst (get_recent_tracks (before_fetch json_refused_world ''/spotify'')) \<noteq> []"
    by (rule fetch_example_nonempty) (simp add: json_refused_world_def)
  have r2: "reaches_fetch jsonl_refused_world ''/spotify'' ''bucket''"
    by (rule reaches_fetch_example) (simp_all add: jsonl_refused_world_def)
  have n2: "fst (get_recent_tracks (before_fetch jsonl_refused_world ''/spotify'')) \<noteq> []"
    by (rule fetch_example_nonempty) (simp add: jsonl_refused_world_def)
  note t1 = partial_write_response [OF r1 refl refl n1]
  note t2 = partial_write_response [OF r2 refl refl n2]
  from t1 t2 r1 n1 r2 n2 show ?thesis
    by (simp add: json_refused_keys jsonl_refused_keys)
qed

text \<open>
  C4 as stated fails: a partial write is not reported as a failure. In the world whose
  storage accepts the first write and refuses the second, the fetch gives records, the
  handler raises nothing and returns status 200 with the very response it returns for
  an empty fetch, which is the reported success of C8.
\<close>

theorem partial_write_reported_like_empty_fetch:
  "s3_put_error json_refused_world ''bucket''
        (jsonl_key (snd (get_recent_tracks (before_fetch json_refused_world ''/spotify'')))) = None
   \<and> s3_put_error json_refused_world ''bucket''
        (json_key (snd (get_recent_tracks (before_fetch json_refused_world ''/spotify'')))) \<noteq> None
   \<and> fst (get_recent_tracks (before_fetch json_refused_world ''/spotify'')) \<noteq> []
   \<and> fst (lambda_handler json_refused_world) = Inr no_new_tracks_response
   \<and> fst (lambda_handler empty_fetch_world) = Inr no_new_tracks_response
   \<and> statusCode no_new_tracks_response = 200
   \<and> \<not> reports_failure (fst (lambda_handler json_refused_world))"
proof -
  have r1: "reaches_fetch json_refused_world ''/spotify'' ''bucket''"
    by (rule reaches_fetch_example) (simp_all add: json_refused_world_def)
  have n1: "fst (get_recent_tracks (before_fetch json_refused_world ''/spotify'')) \<noteq> []"
    by (rule fetch_example_nonempty) (simp add: json_refused_world_def)
  have h1: "fst (lambda_handler json_refused_world) = Inr no_new_tracks_response"
    by (rule handler_no_new_tracks [OF r1]) (simp add: json_refused_keys)
  have r2: "reaches_fetch empty_fetch_world ''/spotify'' ''bucket''"
    by (rule reaches_fetch_example) (simp_all add: empty_fetch_world_def)
  have "current_user_recently_played (before_fetch empty_fetch_world ''/spotify'') 50 = Inr empty_results"
    by (simp add: before_fetch_fields empty_fetch_world_def)
  from get_recent_tracks_iterated [OF this, of "JList []" "[]"]
  have "fst (get_recent_tracks (before_fetch empty_fetch_world ''/spotify'')) = []"
    by (auto simp: empty_results_def)
  then have h2: "fst (lambda_handler empty_fetch_world) = Inr no_new_tracks_response"
    using handler_no_new_tracks [OF r2] by blast
  show ?thesis
    using n1 h1 h2 by (simp add: json_refused_keys no_new_tracks_response_def)
qed

subsection \<open>What the handler returns\<close>

text \<open>
  C8. A run that reaches the fetch and whose request fails, or answers with no item,
  returns the response "No se procesaron nuevas canciones." with status 200, attempts
  no \<^verbatim>\<open>put_object\<close>, and leaves the objects in storage as they were.
\<close>

theorem empty_fetch_no_write:
  assumes "reaches_fetch w parameter_path s3_bucket"
    and "isl (current_user_recently_played w 50)
         \<or> (\<exists>results. current_user_recently_played w 50 = Inr results \<and> response_items results = Some [])"
  shows "fst (lambda_handler w) = Inr no_new_tracks_response
       \<and> filter is_s3_put (calls (snd (lambda_handler w))) = filter is_s3_put (calls w)
       \<and> s3_objects (snd (lambda_handler w)) = s3_objects w"
proof -
  let ?w1 = "before_fetch w parameter_path"
  have api: "current_user_recently_played ?w1 50 = current_user_recently_played w 50"
    by (simp add: before_fetch_fields)
  from assms(2) have empty: "fst (get_recent_tracks ?w1) = []"
  proof
    assume "isl (current_user_recently_played w 50)"
    then show ?thesis by (simp add: get_recent_tracks_api_error api)
  next
    assume "\<exists>results. current_user_recently_played w 50 = Inr results \<and> response_items results = Some []"
    then obtain results where r: "current_user_recently_played ?w1 50 = Inr results"
      and i: "response_items results = Some []"
      using api by auto
    from get_recent_tracks_iterated [OF r response_items_dict_get [OF i], of "[]"]
    show ?thesis by auto
  qed
  then have "lambda_handler w = (Inr no_new_tracks_response, snd (get_recent_tracks ?w1))"
    by (simp add: handler_after_fetch [OF assms(1)] process_tracks_empty)
  then show ?thesis
    by (simp add: get_recent_tracks_snd before_fetch_fields cache_handoff_fields cache_handoff_calls)
qed

theorem empty_fetch_no_write_witness:
  "reaches_fetch api_down_world ''/spotify'' ''bucket''
   \<and> isl (current_user_recently_played api_down_world 50)
   \<and> fst (lambda_handler api_down_world) = Inr no_new_tracks_response
   \<and> filter is_s3_put (calls (snd (lambda_handler api_down_world))) = []
   \<and> reaches_fetch empty_fetch_world ''/spotify'' ''bucket''
   \<and> current_user_recently_played empty_fetch_world 50 = Inr empty_results
   \<and> response_items empty_results = Some []
   \<and> fst (lambda_handler empty_fetch_world) = Inr no_new_tracks_response
   \<and> filter is_s3_put (calls (snd (lambda_handler empty_fetch_world))) = []
   \<and> s3_objects (snd (lambda_handler empty_fetch_world)) = Map.empty"
proof -
  have r1: "reaches_fetch api_down_world ''/spotify'' ''bucket''"
    by (rule reaches_fetch_example) (simp_all add: api_down_world_def)
  have a1: "isl (current_user_recently_played api_down_world 50)"
    by (simp add: api_down_world_def)
  have r2: "reaches_fetch empty_fetch_world ''/spotify'' ''bucket''"
    by (rule reaches_fetch_example) (simp_all add: empty_fetch_world_def)
  have a2: "current_user_recently_played empty_fetch_world 50 = Inr empty_results"
    by (simp add: empty_fetch_world_def)
  have i2: "response_items empty_results = Some []"
    by (simp add: empty_results_def)
  have c: "calls api_down_world = []" "calls empty_fetch_world = []"
    "s3_objects empty_fetch_world = Map.empty"
    by (simp_all add: api_down_world_def empty_fetch_world_def example_world_def)
  from a1 have d1: "isl (current_user_recently_played api_down_world 50)
      \<or> (\<exists>results. current_user_recently_played api_down_world 50 = Inr results \<and> response_items results = Some [])"
    by simp
  from a2 i2 have d2: "isl (current_user_recently_played empty_fetch_world 50)
      \<or> (\<exists>results. current_user_recently_played empty_fetch_world 50 = Inr results \<and> response_items results = Some [])"
    by simp
  from empty_fetch_no_write [OF r1 d1] empty_fetch_no_write [OF r2 d2] r1 a1 r2 a2 i2
  show ?thesis by (simp add: c)
qed

text \<open>
  C9. Whenever the handler returns a response, rather than raising, the status of the
  response is 200. The worlds of the witness are the one whose storage refuses both
  writes and the one whose API request fails.
\<close>

theorem handler_status_200:
  "fst (lambda_handler w) = Inr r \<Longrightarrow> statusCode r = 200"
proof (cases w rule: handler_cases)
  case (1 e)
  assume "fst (lambda_handler w) = Inr r"
  with 1 show ?thesis by simp
next
  case (2 p b e)
  assume "fst (lambda_handler w) = Inr r"
  with 2 show ?thesis by simp
next
  case (3 p b)
  assume "fst (lambda_handler w) = Inr r"
  then have "r = fst (process_tracks b (before_fetch w p))"
    by (simp add: handler_after_fetch [OF 3])
  then show ?thesis by (simp add: process_tracks_status)
qed

theorem handler_status_200_witness:
  "fst (lambda_handler all_refused_world) = Inr no_new_tracks_response
   \<and> fst (lambda_handler api_down_world) = Inr no_new_tracks_response
   \<and> statusCode no_new_tracks_response = 200"
proof -
  have r1: "reaches_fetch all_refused_world ''/spotify'' ''bucket''"
    by (rule reaches_fetch_example) (simp_all add: all_refused_world_def)
  have h1: "fst (lambda_handler all_refused_world) = Inr no_new_tracks_response"
    by (rule handler_no_new_tracks [OF r1]) (simp add: all_refused_world_def)
  have r2: "reaches_fetch api_down_world ''/spotify'' ''bucket''"
    by (rule reaches_fetch_example) (simp_all add: api_down_world_def)
  have "fst (get_recent_tracks (before_fetch api_down_world ''/spotify'')) = []"
    by (rule get_recent_tracks_api_error) (simp add: before_fetch_fields api_down_world_def)
  then have h2: "fst (lambda_handler api_down_world) = Inr no_new_tracks_response"
    using handler_no_new_tracks [OF r2] by blast
  from handler_status_200 [OF h1] h1 h2 show ?thesis by simp
qed

subsection \<open>The Deduplicator\<close>

text \<open>
  C2. For every table that has the \<^verbatim>\<open>played_at\<close> column, the Deduplicator returns a
  table with the same columns whose rows are rows of the input and in which every value
  of \<^verbatim>\<open>played_at\<close> of the input occurs in exactly one row, and no other value in any.
  For the rows with \<^verbatim>\<open>played_at\<close> t1, t1, t2 of the witness the output has two rows,
  one for t1 and one for t2.
\<close>

theorem deduplicated_one_row_per_played_at:
  assumes "DEDUP_COLUMN \<in> set (columns df)"
  shows "\<exists>out. deduplicated_df df = Inr out
           \<and> columns out = columns df
           \<and> set (rows out) \<subseteq> set (rows df)
           \<and> (\<forall>k. length (filter (\<lambda>r. played_at_of df r = k) (rows out))
                   = (if k \<in> played_at_of df ` set (rows df) then 1 else 0))"
proof -
  let ?key = "\<lambda>r. [played_at_of df r]"
  let ?out = "df\<lparr>rows := drop_seen ?key [] (rows df)\<rparr>"
  have "deduplicated_df df = Inr ?out"
    using assms by (rule deduplicated_df_rows)
  moreover have "set (rows ?out) \<subseteq> set (rows df)"
    by (simp add: drop_seen_subset)
  moreover have "length (filter (\<lambda>r. played_at_of df r = k) (rows ?out))
                   = (if k \<in> played_at_of df ` set (rows df) then 1 else 0)" for k
  proof -
    have "length (filter (\<lambda>r. played_at_of df r = k) (rows ?out))
        = length (filter (\<lambda>r. ?key r = [k]) (drop_seen ?key [] (rows df)))"
      by simp
    also have "\<dots> = (if [k] \<in> ?key ` set (rows df) \<and> [k] \<notin> set [] then 1 else 0)"
      by (rule drop_seen_count)
    also have "\<dots> = (if k \<in> played_at_of df ` set (rows df) then 1 else 0)"
      by auto
    finally show ?thesis .
  qed
  ultimately show ?thesis by (intro exI [of _ ?out]) simp
qed

theorem deduplicated_one_row_per_played_at_witness:
  "DEDUP_COLUMN \<in> set (columns example_table)
   \<and> (\<exists>out. deduplicated_df example_table = Inr out
         \<and> rows out = [[JStr ''a'', JStr ''t1''], [JStr ''c'', JStr ''t2'']]
         \<and> length (rows out) = 2
         \<and> length (filter (\<lambda>r. played_at_of example_table r = Some (JStr ''t1'')) (rows out)) = 1
         \<and> length (filter (\<lambda>r. played_at_of example_table r = Some (JStr ''t2'')) (rows out)) = 1)"
proof -
  have c: "DEDUP_COLUMN \<in> set (columns example_table)"
    by (simp add: example_table_def DEDUP_COLUMN_def)
  from deduplicated_one_row_per_played_at [OF c]
  obtain out where out: "deduplicated_df example_table = Inr out"
    and cnt: "\<And>k. length (filter (\<lambda>r. played_at_of example_table r = k) (rows out))
                = (if k \<in> played_at_of example_table ` set (rows example_table) then 1 else 0)"
    by blast
  have "Inr out = Inr (example_table\<lparr>rows := drop_seen (\<lambda>r. [played_at_of example_table r]) [] (rows example_table)\<rparr>)"
    using out deduplicated_df_rows [OF c] by simp
  then have "out = example_table\<lparr>rows := drop_seen (\<lambda>r. [played_at_of example_table r]) [] (rows example_table)\<rparr>"
    by simp
  then have "rows out = drop_seen (\<lambda>r. [played_at_of example_table r]) [] (rows example_table)"
    by simp
  then have r: "rows out = [[JStr ''a'', JStr ''t1''], [JStr ''c'', JStr ''t2'']]"
    by (simp add: example_table_def played_at_of_def DEDUP_COLUMN_def)
  have "Some (JStr ''t1'') \<in> played_at_of example_table ` set (rows example_table)"
    and "Some (JStr ''t2'') \<in> played_at_of example_table ` set (rows example_table)"
    by (simp_all add: example_table_def played_at_of_def DEDUP_COLUMN_def)
  then have "length (filter (\<lambda>r. played_at_of example_table r = Some (JStr ''t1'')) (rows out)) = 1"
    and "length (filter (\<lambda>r. played_at_of example_table r = Some (JStr ''t2'')) (rows out)) = 1"
    by (simp_all add: cnt)
  with c out r show ?thesis by simp
qed

text \<open>
  C7. For every table with the \<^verbatim>\<open>played_at\<close> column whose rows have pairwise different
  values of \<^verbatim>\<open>played_at\<close>, the Deduplicator returns as many rows as it was given, and the
  same rows: the multiset of rows is unchanged.
\<close>

theorem deduplicated_duplicate_free_unchanged:
  assumes "DEDUP_COLUMN \<in> set (columns df)"
    and "distinct (map (played_at_of df) (rows df))"
  shows "\<exists>out. deduplicated_df df = Inr out
           \<and> columns out = columns df
           \<and> length (rows out) = length (rows df)
           \<and> mset (rows out) = mset (rows df)"
proof -
  let ?key = "\<lambda>r. [played_at_of df r]"
  have "map ?key (rows df) = map (\<lambda>k. [k]) (map (played_at_of df) (rows df))"
    by simp
  moreover have "distinct (map (\<lambda>k. [k]) (map (played_at_of df) (rows df)))"
    using assms(2) by (subst distinct_map) (simp add: inj_on_def)
  ultimately have "distinct (map ?key (rows df))"
    by (simp add: comp_def)
  then have "drop_seen ?key [] (rows df) = rows df"
    by (rule drop_seen_distinct) simp
  then have "deduplicated_df df = Inr df"
    by (simp add: deduplicated_df_rows [OF assms(1)])
  then show ?thesis by simp
qed

theorem deduplicated_duplicate_free_unchanged_witness:
  "DEDUP_COLUMN \<in> set (columns clean_table)
   \<and> distinct (map (played_at_of clean_table) (rows clean_table))
   \<and> length (rows clean_table) = 3
   \<and> (\<exists>out. deduplicated_df clean_table = Inr out
         \<and> length (rows out) = 3
         \<and> mset (rows out) = mset (rows clean_table))"
proof -
  have c: "DEDUP_COLUMN \<in> set (columns clean_table)"
    by (simp add: clean_table_def DEDUP_COLUMN_def)
  have d: "distinct (map (played_at_of clean_table) (rows clean_table))"
    by (simp add: clean_table_def played_at_of_def DEDUP_COLUMN_def)
  have l: "length (rows clean_table) = 3"
    by (simp add: clean_table_def)
  from deduplicated_duplicate_free_unchanged [OF c d] c d l show ?thesis
    by auto
qed

end
